theory Spec2Isabelle
  imports Complex_Main "HOL-Library.AList" "HOL-Library.Multiset"
    "HOL-Library.Char_ord" "HOL-Library.List_Lexorder"
begin

section \<open>Python floats\<close>

text \<open>
  Amounts of money are Python floats in the source: IEEE 754 binary64 numbers, with round to
  nearest, ties to even. A float is modelled by the rational number it stands for, or it is
  one of the two infinities or a NaN. The sign of a zero is not represented: the program
  never divides by a float, and no other operation it uses tells the two zeros apart.

  \<open>floor_log2 a\<close> is the binary exponent of a positive rational \<open>a\<close>, the integer \<open>e\<close> with
  \<open>2 powi e \<le> a < 2 powi (e + 1)\<close>, computed from the bit length of an integer.
\<close>

datatype pyfloat = Finite rat | PInf | NInf | NaN

fun bit_length :: "nat \<Rightarrow> nat" where
  "bit_length n = (if n = 0 then 0 else Suc (bit_length (n div 2)))"

declare bit_length.simps [simp del]

definition floor_log2 :: "rat \<Rightarrow> int" where
  "floor_log2 a =
     (if 1 \<le> a then int (bit_length (nat \<lfloor>a\<rfloor>)) - 1
      else - int (bit_length (nat (\<lceil>1 / a\<rceil> - 1))))"

text \<open>Rounding to the nearest integer, a tie going to the even one.\<close>

definition round_half_even :: "rat \<Rightarrow> int" where
  "round_half_even x =
     (let f = \<lfloor>x\<rfloor>; d = x - of_int f
      in if d < 1 / 2 then f else if 1 / 2 < d then f + 1 else if even f then f else f + 1)"

text \<open>
  The distance between neighbouring doubles around a positive rational: 52 binary places
  below its exponent, and \<open>2 powi (- 1074)\<close> in the subnormal range.
\<close>

definition quantum :: "rat \<Rightarrow> rat" where
  "quantum a = 2 powi (max (floor_log2 a) (- 1022) - 52)"

text \<open>
  The double nearest to a rational; a magnitude that rounds to \<open>2 ^ 1024\<close> or more
  overflows to an infinity.
\<close>

definition round_to_double :: "rat \<Rightarrow> pyfloat" where
  "round_to_double q =
     (if q = 0 then Finite 0
      else
        (let u = quantum \<bar>q\<bar>;
             m = of_int (round_half_even (\<bar>q\<bar> / u)) * u
         in if 2 ^ 1024 \<le> m then (if 0 < q then PInf else NInf)
            else Finite (sgn q * m)))"

text \<open>Addition and multiplication of floats; neither raises in Python.\<close>

fun fadd :: "pyfloat \<Rightarrow> pyfloat \<Rightarrow> pyfloat" where
  "fadd (Finite a) (Finite b) = round_to_double (a + b)"
| "fadd NaN y = NaN"
| "fadd x NaN = NaN"
| "fadd PInf NInf = NaN"
| "fadd NInf PInf = NaN"
| "fadd PInf y = PInf"
| "fadd x PInf = PInf"
| "fadd NInf y = NInf"
| "fadd x NInf = NInf"

fun fmul :: "pyfloat \<Rightarrow> pyfloat \<Rightarrow> pyfloat" where
  "fmul (Finite a) (Finite b) = round_to_double (a * b)"
| "fmul NaN y = NaN"
| "fmul x NaN = NaN"
| "fmul (Finite a) PInf = (if a = 0 then NaN else if 0 < a then PInf else NInf)"
| "fmul (Finite a) NInf = (if a = 0 then NaN else if 0 < a then NInf else PInf)"
| "fmul PInf (Finite b) = (if b = 0 then NaN else if 0 < b then PInf else NInf)"
| "fmul NInf (Finite b) = (if b = 0 then NaN else if 0 < b then NInf else PInf)"
| "fmul PInf PInf = PInf"
| "fmul PInf NInf = NInf"
| "fmul NInf PInf = NInf"
| "fmul NInf NInf = PInf"

text \<open>A float literal of the source text is the double nearest to the decimal.\<close>

definition float_literal :: "rat \<Rightarrow> pyfloat" where
  "float_literal q = round_to_double q"

text \<open>The comparison \<^verbatim>\<open>x >= 0\<close> on a float, which is false on a NaN.\<close>

definition float_ge_zero :: "pyfloat \<Rightarrow> bool" where
  "float_ge_zero x = (case x of Finite a \<Rightarrow> 0 \<le> a | PInf \<Rightarrow> True | NInf \<Rightarrow> False | NaN \<Rightarrow> False)"

text \<open>The negation of a float, for the symmetry of the rounding.\<close>

definition fneg :: "pyfloat \<Rightarrow> pyfloat" where
  "fneg x = (case x of Finite a \<Rightarrow> Finite (- a) | PInf \<Rightarrow> NInf | NInf \<Rightarrow> PInf | NaN \<Rightarrow> NaN)"

text \<open>A float that the rounding leaves as it is: a double, an infinity or a NaN.\<close>

definition is_double :: "pyfloat \<Rightarrow> bool" where
  "is_double x =
     (case x of Finite a \<Rightarrow> round_to_double a = Finite a | PInf \<Rightarrow> True | NInf \<Rightarrow> True
      | NaN \<Rightarrow> True)"

text \<open>
  The time arithmetic and the division of an integer by an integer raise \<^verbatim>\<open>OverflowError\<close>
  when their result is out of range.
\<close>

datatype error = OverflowError

text \<open>
  \<^verbatim>\<open>n / 1_000_000\<close> on a Python integer: the quotient is rounded correctly to a double, and
  the division raises \<^verbatim>\<open>OverflowError\<close> when the rounded quotient is too large for a float.
\<close>

definition div_million :: "int \<Rightarrow> error + pyfloat" where
  "div_million n =
     (case round_to_double (of_int n / 1000000) of
        Finite x \<Rightarrow> Inr (Finite x)
      | PInf \<Rightarrow> Inl OverflowError
      | NInf \<Rightarrow> Inl OverflowError
      | NaN \<Rightarrow> Inl OverflowError)"

section \<open>Usage records and the pricing table\<close>

text \<open>
  The engine of \<^verbatim>\<open>core/token_data.py\<close> works on a list of usage entries. An entry is the
  dictionary built by \<^verbatim>\<open>parse_jsonl_file\<close>; the record below gives it the types of the
  data model: strings for the identifiers and the ISO timestamp, Python integers
  (unbounded, so \<^typ>\<open>int\<close>) for the four token counts.
\<close>

record usage_record =
  model :: string
  timestamp :: string
  input_tokens :: int
  output_tokens :: int
  cache_creation_input_tokens :: int
  cache_read_input_tokens :: int
  session_id :: string
  project_dir :: string

record pricing =
  "input" :: pyfloat
  "output" :: pyfloat
  cache_write :: pyfloat
  cache_read :: pyfloat

text \<open>The table \<^verbatim>\<open>PRICING\<close>, rates per million tokens, in the order of the source.\<close>

definition PRICING :: "(string \<times> pricing) list" where
  "PRICING =
    [(''claude-sonnet-4-20250514'',
        \<lparr>input = float_literal 3, output = float_literal 15,
         cache_write = float_literal (375 / 100), cache_read = float_literal (30 / 100)\<rparr>),
     (''claude-3-5-sonnet-20241022'',
        \<lparr>input = float_literal 3, output = float_literal 15,
         cache_write = float_literal (375 / 100), cache_read = float_literal (30 / 100)\<rparr>),
     (''claude-3-opus-20240229'',
        \<lparr>input = float_literal 15, output = float_literal 75,
         cache_write = float_literal (1875 / 100), cache_read = float_literal (150 / 100)\<rparr>)]"

text \<open>
  \<^verbatim>\<open>PRICING.get(model, PRICING['claude-sonnet-4-20250514'])\<close>: the default is looked up in
  the same table; lemma \<open>default_pricing_present\<close> below shows that this lookup finds its key.
\<close>

definition pricing_for :: "string \<Rightarrow> pricing" where
  "pricing_for m =
     (case map_of PRICING m of
        Some p \<Rightarrow> p
      | None \<Rightarrow> the (map_of PRICING ''claude-sonnet-4-20250514''))"

text \<open>
  \<^verbatim>\<open>calculate_cost\<close>: the four statements in their order, each a division of an integer
  (which can raise) and a multiplication of floats, and the sum of the four costs from left
  to right.
\<close>

definition calculate_cost :: "usage_record \<Rightarrow> error + pyfloat" where
  "calculate_cost usage_entry =
     (let pricing = pricing_for (model usage_entry) in
      case div_million (input_tokens usage_entry) of
        Inl e \<Rightarrow> Inl e
      | Inr q1 \<Rightarrow>
     (let input_cost = fmul q1 (input pricing) in
      case div_million (output_tokens usage_entry) of
        Inl e \<Rightarrow> Inl e
      | Inr q2 \<Rightarrow>
     (let output_cost = fmul q2 (output pricing) in
      case div_million (cache_creation_input_tokens usage_entry) of
        Inl e \<Rightarrow> Inl e
      | Inr q3 \<Rightarrow>
     (let cache_write_cost = fmul q3 (cache_write pricing) in
      case div_million (cache_read_input_tokens usage_entry) of
        Inl e \<Rightarrow> Inl e
      | Inr q4 \<Rightarrow>
     (let cache_read_cost = fmul q4 (cache_read pricing) in
      Inr (fadd (fadd (fadd input_cost output_cost) cache_write_cost) cache_read_cost))))))"

text \<open>
  The cost formula in the words of the specification: a sum over the four token categories,
  in their order, of count / 1 000 000 times the rate of the category, the rates being those
  of the record's model when the table has it and those of the default model otherwise;
  every division, product and sum is rounded to a double.
\<close>

datatype category = Input | Output | CacheWrite | CacheRead

fun count_of :: "usage_record \<Rightarrow> category \<Rightarrow> int" where
  "count_of r Input = input_tokens r"
| "count_of r Output = output_tokens r"
| "count_of r CacheWrite = cache_creation_input_tokens r"
| "count_of r CacheRead = cache_read_input_tokens r"

fun rate_of :: "pricing \<Rightarrow> category \<Rightarrow> pyfloat" where
  "rate_of p Input = input p"
| "rate_of p Output = output p"
| "rate_of p CacheWrite = cache_write p"
| "rate_of p CacheRead = cache_read p"

definition default_model :: string where
  "default_model = ''claude-sonnet-4-20250514''"

definition spec_rates :: "string \<Rightarrow> pricing" where
  "spec_rates m =
     (if m \<in> fst ` set PRICING then the (map_of PRICING m)
      else the (map_of PRICING default_model))"

definition spec_term :: "usage_record \<Rightarrow> category \<Rightarrow> pyfloat" where
  "spec_term r c =
     fmul (round_to_double (of_int (count_of r c) / 1000000)) (rate_of (spec_rates (model r)) c)"

definition spec_cost :: "usage_record \<Rightarrow> pyfloat" where
  "spec_cost r =
     foldl fadd (spec_term r Input) (map (spec_term r) [Output, CacheWrite, CacheRead])"

text \<open>
  A count whose quotient by 1 000 000 is too large for a float: the quotients of magnitude
  \<open>2 ^ 1024 - 2 ^ 970\<close> or more round to \<open>2 ^ 1024\<close> or beyond, so the bound on the count is
  about 1.8e314.
\<close>

definition div_overflows :: "int \<Rightarrow> bool" where
  "div_overflows n \<longleftrightarrow> 1000000 * (2 ^ 1024 - 2 ^ 970) \<le> \<bar>n\<bar>"

definition cost_raises :: "usage_record \<Rightarrow> bool" where
  "cost_raises r \<longleftrightarrow>
     div_overflows (input_tokens r) \<or> div_overflows (output_tokens r)
     \<or> div_overflows (cache_creation_input_tokens r) \<or> div_overflows (cache_read_input_tokens r)"

section \<open>Summary statistics\<close>

text \<open>
  The value of one key of the per-model dictionary of \<^verbatim>\<open>get_summary_stats\<close>
  (the keys \<^verbatim>\<open>requests\<close>, \<^verbatim>\<open>input_tokens\<close>, ..., \<^verbatim>\<open>cost\<close>), and the dictionary the
  function returns. A Python dictionary keeps its keys in insertion order and holds each key
  once: it is an association list updated in place (\<^const>\<open>AList.update\<close>).
\<close>

record model_stats =
  m_requests :: int
  m_input_tokens :: int
  m_output_tokens :: int
  m_cache_creation_input_tokens :: int
  m_cache_read_input_tokens :: int
  m_cost :: pyfloat

record summary_stats =
  total_requests :: int
  total_input :: int
  total_output :: int
  total_cache_creation :: int
  total_cache_read :: int
  total_cost :: pyfloat
  models :: "(string \<times> model_stats) list"

text \<open>
  The default value of the \<^verbatim>\<open>defaultdict\<close>. Its cost is the integer \<^verbatim>\<open>0\<close>, which the first
  \<^verbatim>\<open>+=\<close> converts to the float zero.
\<close>

definition models_default :: model_stats where
  "models_default =
     \<lparr>m_requests = 0, m_input_tokens = 0, m_output_tokens = 0,
      m_cache_creation_input_tokens = 0, m_cache_read_input_tokens = 0, m_cost = Finite 0\<rparr>"

text \<open>
  The six \<^verbatim>\<open>+=\<close> of the loop body, on the value stored under the entry's model; \<open>c\<close> is
  the cost of the entry.
\<close>

definition models_add :: "usage_record \<Rightarrow> pyfloat \<Rightarrow> model_stats \<Rightarrow> model_stats" where
  "models_add entry c s =
     \<lparr>m_requests = m_requests s + 1,
      m_input_tokens = m_input_tokens s + input_tokens entry,
      m_output_tokens = m_output_tokens s + output_tokens entry,
      m_cache_creation_input_tokens =
        m_cache_creation_input_tokens s + cache_creation_input_tokens entry,
      m_cache_read_input_tokens = m_cache_read_input_tokens s + cache_read_input_tokens entry,
      m_cost = fadd (m_cost s) c\<rparr>"

text \<open>
  One iteration of \<^verbatim>\<open>for entry in data\<close>: a missing key starts from the default. When
  \<^verbatim>\<open>calculate_cost\<close> raises, the exception leaves \<^verbatim>\<open>get_summary_stats\<close> and the
  dictionary is lost.
\<close>

definition models_step ::
  "(string \<times> model_stats) list \<Rightarrow> usage_record \<Rightarrow> error + (string \<times> model_stats) list" where
  "models_step ms entry =
     (let current = (case map_of ms (model entry) of None \<Rightarrow> models_default | Some s \<Rightarrow> s)
      in case calculate_cost entry of
           Inl e \<Rightarrow> Inl e
         | Inr c \<Rightarrow> Inr (AList.update (model entry) (models_add entry c current) ms))"

fun models_loop ::
  "(string \<times> model_stats) list \<Rightarrow> usage_record list \<Rightarrow> error + (string \<times> model_stats) list" where
  "models_loop ms [] = Inr ms"
| "models_loop ms (entry # data) =
     (case models_step ms entry of
        Inl e \<Rightarrow> Inl e
      | Inr ms' \<Rightarrow> models_loop ms' data)"

text \<open>
  \<^verbatim>\<open>sum(self.calculate_cost(entry) for entry in data)\<close>: the costs are added from left to
  right to the start value \<^verbatim>\<open>0\<close>, and an exception of \<^verbatim>\<open>calculate_cost\<close> ends the sum.
\<close>

fun sum_costs :: "pyfloat \<Rightarrow> usage_record list \<Rightarrow> error + pyfloat" where
  "sum_costs acc [] = Inr acc"
| "sum_costs acc (entry # data) =
     (case calculate_cost entry of
        Inl e \<Rightarrow> Inl e
      | Inr c \<Rightarrow> sum_costs (fadd acc c) data)"

text \<open>
  \<^verbatim>\<open>get_summary_stats(filter_data)\<close>, with the object's \<^verbatim>\<open>usage_data\<close> as first argument;
  \<open>None\<close> is Python's \<^verbatim>\<open>None\<close>, the default of the parameter.
\<close>

definition get_summary_stats ::
  "usage_record list \<Rightarrow> usage_record list option \<Rightarrow> error + summary_stats" where
  "get_summary_stats usage_data filter_data =
     (let data = (case filter_data of Some d \<Rightarrow> d | None \<Rightarrow> usage_data) in
      if data = [] then
        Inr \<lparr>total_requests = 0, total_input = 0, total_output = 0, total_cache_creation = 0,
             total_cache_read = 0, total_cost = Finite 0, models = []\<rparr>
      else
        (case sum_costs (Finite 0) data of
           Inl e \<Rightarrow> Inl e
         | Inr cost_sum \<Rightarrow>
             (case models_loop [] data of
                Inl e \<Rightarrow> Inl e
              | Inr model_breakdown \<Rightarrow>
                  Inr \<lparr>total_requests = int (length data),
                       total_input = sum_list (map input_tokens data),
                       total_output = sum_list (map output_tokens data),
                       total_cache_creation = sum_list (map cache_creation_input_tokens data),
                       total_cache_read = sum_list (map cache_read_input_tokens data),
                       total_cost = cost_sum,
                       models = model_breakdown\<rparr>)))"

text \<open>
  The sum of a list of floats as Python's \<^verbatim>\<open>sum\<close> computes it: from left to right, starting
  from zero, every addition rounded.
\<close>

definition float_sum :: "pyfloat list \<Rightarrow> pyfloat" where
  "float_sum xs = foldl fadd (Finite 0) xs"

text \<open>
  The per-model entry in the words of the specification: the request count, the four token
  totals and the cost of the records of one model, the cost being the float sum of their
  costs in list order.
\<close>

definition stats_of_model :: "string \<Rightarrow> usage_record list \<Rightarrow> model_stats" where
  "stats_of_model m data =
     (let rs = filter (\<lambda>r. model r = m) data in
      \<lparr>m_requests = int (length rs),
       m_input_tokens = sum_list (map input_tokens rs),
       m_output_tokens = sum_list (map output_tokens rs),
       m_cache_creation_input_tokens = sum_list (map cache_creation_input_tokens rs),
       m_cache_read_input_tokens = sum_list (map cache_read_input_tokens rs),
       m_cost = float_sum (map spec_cost rs)\<rparr>)"

text \<open>
  The iteration of the loop when the cost of the entry is known not to raise, and the
  accumulation of the entries of one model, for the invariant of the loop.
\<close>

definition models_put ::
  "(string \<times> model_stats) list \<Rightarrow> usage_record \<Rightarrow> (string \<times> model_stats) list" where
  "models_put ms entry =
     AList.update (model entry)
       (models_add entry (spec_cost entry)
          (case map_of ms (model entry) of None \<Rightarrow> models_default | Some s \<Rightarrow> s))
       ms"

definition stats_from :: "model_stats \<Rightarrow> usage_record list \<Rightarrow> model_stats" where
  "stats_from s rs = foldl (\<lambda>s r. models_add r (spec_cost r) s) s rs"

section \<open>Time and the platform\<close>

text \<open>
  A naive \<^verbatim>\<open>datetime\<close> is modelled by its number of microseconds since
  \<^verbatim>\<open>datetime.min\<close> (0001-01-01T00:00:00): comparison of naive datetimes is comparison of
  these numbers, and adding a \<^verbatim>\<open>timedelta\<close> adds its microseconds. Both types are bounded in
  Python, and leaving the range raises \<^verbatim>\<open>OverflowError\<close>.
\<close>

type_synonym datetime = int

definition datetime_max :: datetime where
  "datetime_max = 3652059 * 86400000000 - 1"

text \<open>A \<^verbatim>\<open>timedelta\<close> of the given microseconds: its days are at most 999999999 in magnitude.\<close>

definition timedelta :: "int \<Rightarrow> error + int" where
  "timedelta us =
     (if - 999999999 \<le> us div 86400000000 \<and> us div 86400000000 \<le> 999999999
      then Inr us else Inl OverflowError)"

text \<open>\<^verbatim>\<open>dt + delta\<close> (and \<^verbatim>\<open>dt - delta\<close>, with the microseconds negated).\<close>

definition datetime_add :: "datetime \<Rightarrow> int \<Rightarrow> error + datetime" where
  "datetime_add dt us =
     (if 0 \<le> dt + us \<and> dt + us \<le> datetime_max then Inr (dt + us) else Inl OverflowError)"

definition minutes_us :: "int \<Rightarrow> int" where
  "minutes_us m = m * 60000000"

definition hours_us :: "int \<Rightarrow> int" where
  "hours_us h = h * 3600000000"

text \<open>
  What the engine takes from the Python library and the operating system: the clock
  (\<^verbatim>\<open>datetime.now()\<close>, a naive local datetime, and \<^verbatim>\<open>date.today().isoformat()\<close>), the parser
  \<^verbatim>\<open>datetime.fromisoformat\<close> (\<open>None\<close> when it raises) and the conversion
  \<^verbatim>\<open>astimezone()\<close> to the local time zone, read as the wall-clock time it yields (what
  \<^verbatim>\<open>replace(tzinfo=None)\<close> keeps; \<open>None\<close> when it raises). The type \<open>'a\<close> is the
  library's parsed datetime.
\<close>

record 'a platform =
  now :: datetime
  today :: string
  fromisoformat :: "string \<Rightarrow> 'a option"
  astimezone :: "'a \<Rightarrow> datetime option"

text \<open>\<^verbatim>\<open>timestamp_str.replace('Z', '+00:00')\<close>: every occurrence is replaced.\<close>

definition replace_Z :: "string \<Rightarrow> string" where
  "replace_Z s = concat (map (\<lambda>c. if c = CHR ''Z'' then ''+00:00'' else [c]) s)"

definition get_local_datetime :: "'a platform \<Rightarrow> string \<Rightarrow> datetime option" where
  "get_local_datetime P timestamp_str =
     (case fromisoformat P (replace_Z timestamp_str) of
        None \<Rightarrow> None
      | Some utc_dt \<Rightarrow> astimezone P utc_dt)"

text \<open>\<^verbatim>\<open>strftime('%H:00')\<close>: the hour of the day, two digits, then \<^verbatim>\<open>:00\<close>.\<close>

definition hour_of :: "datetime \<Rightarrow> nat" where
  "hour_of t = nat ((t div 3600000000) mod 24)"

definition digit :: "nat \<Rightarrow> char" where
  "digit d = ''0123456789'' ! d"

definition strftime_H00 :: "datetime \<Rightarrow> string" where
  "strftime_H00 t = [digit (hour_of t div 10), digit (hour_of t mod 10)] @ '':00''"

text \<open>The sum of the four token counts of an entry, as the time queries compute it.\<close>

definition total_tokens :: "usage_record \<Rightarrow> int" where
  "total_tokens entry =
     input_tokens entry + output_tokens entry
       + cache_creation_input_tokens entry + cache_read_input_tokens entry"

section \<open>Recent activity and today's records\<close>

text \<open>
  \<^verbatim>\<open>sorted(self.usage_data, key=lambda x: x['timestamp'], reverse=True)\<close>: Python's sort is
  stable, and with \<^verbatim>\<open>reverse=True\<close> it reverses the list, sorts it and reverses the result,
  so that equal keys keep their order. Strings compare lexicographically by character code.
\<close>

definition sorted_reverse :: "usage_record list \<Rightarrow> usage_record list" where
  "sorted_reverse xs = rev (sort_key timestamp (rev xs))"

text \<open>The slice \<^verbatim>\<open>xs[:limit]\<close>; a negative limit counts from the end.\<close>

definition slice_to :: "int \<Rightarrow> 'b list \<Rightarrow> 'b list" where
  "slice_to limit xs =
     (if 0 \<le> limit then take (nat limit) xs else take (length xs - nat (- limit)) xs)"

definition get_recent_activity :: "usage_record list \<Rightarrow> int \<Rightarrow> usage_record list" where
  "get_recent_activity usage_data limit = slice_to limit (sorted_reverse usage_data)"

fun startswith :: "string \<Rightarrow> string \<Rightarrow> bool" where
  "startswith s [] = True"
| "startswith [] (c # p) = False"
| "startswith (d # s) (c # p) = (d = c \<and> startswith s p)"

definition get_today_data :: "'a platform \<Rightarrow> usage_record list \<Rightarrow> usage_record list" where
  "get_today_data P usage_data =
     [entry \<leftarrow> usage_data. startswith (timestamp entry) (today P)]"

section \<open>Ingestion\<close>

text \<open>
  The value \<^verbatim>\<open>json.loads\<close> returns: \<^verbatim>\<open>None\<close>, a \<^verbatim>\<open>bool\<close>, an \<^verbatim>\<open>int\<close>, a \<^verbatim>\<open>str\<close>, a
  \<^verbatim>\<open>list\<close> or a \<^verbatim>\<open>dict\<close> with string keys (an association list; a key is looked up by
  \<^const>\<open>map_of\<close>). Numbers with a fraction or an exponent (Python floats) are left out.
\<close>

datatype json =
  JNull
  | JBool bool
  | JInt int
  | JString string
  | JArray "json list"
  | JObject "(string \<times> json) list"

text \<open>
  The decoder is the library's: its outcome for a line is a value, the exception
  \<^verbatim>\<open>json.JSONDecodeError\<close>, or another exception (such as \<^verbatim>\<open>RecursionError\<close> on deeply
  nested input).
\<close>

datatype decoded = Value json | JSONDecodeError | OtherException

text \<open>\<^verbatim>\<open>d.get(key, dflt)\<close> on a dictionary, \<open>dflt\<close> being the default.\<close>

definition dict_get :: "(string \<times> json) list \<Rightarrow> string \<Rightarrow> json \<Rightarrow> json" where
  "dict_get d key dflt = (case map_of d key of None \<Rightarrow> dflt | Some v \<Rightarrow> v)"

text \<open>\<^verbatim>\<open>p in s\<close> on strings: \<open>p\<close> occurs in \<open>s\<close>.\<close>

fun str_contains :: "string \<Rightarrow> string \<Rightarrow> bool" where
  "str_contains [] p = (p = [])"
| "str_contains (c # s) p = (startswith (c # s) p \<or> str_contains s p)"

text \<open>
  \<^verbatim>\<open>'usage' in x\<close>: a key of a dictionary, an element of a list, a substring of a string;
  on any other value the operator raises \<^verbatim>\<open>TypeError\<close> (\<open>None\<close>).
\<close>

fun contains_usage :: "json \<Rightarrow> bool option" where
  "contains_usage (JObject m) = Some (map_of m ''usage'' \<noteq> None)"
| "contains_usage (JArray xs) = Some (JString ''usage'' \<in> set xs)"
| "contains_usage (JString s) = Some (str_contains s ''usage'')"
| "contains_usage x = None"

text \<open>
  The entry dictionary stores the values of the log line as they are. The typed record reads
  a token count as an integer and an identifier as a string; where the log line holds a value
  of another type, the typed record has no counterpart and the field is left unspecified.
\<close>

fun the_int :: "json \<Rightarrow> int" where
  "the_int (JInt n) = n"

fun the_str :: "json \<Rightarrow> string" where
  "the_str (JString s) = s"

text \<open>
  What one decoded line does to the loop of \<^verbatim>\<open>parse_jsonl_file\<close>: it appends an entry, it
  is passed over, or it raises an exception that is not a \<^verbatim>\<open>JSONDecodeError\<close>, which only
  the outer \<^verbatim>\<open>except Exception: pass\<close> catches, so that the loop is left.
\<close>

datatype line_result = Emit usage_record | Skip | Abort

text \<open>
  The body of the inner \<^verbatim>\<open>try\<close> after the decoding. \<^verbatim>\<open>data.get\<close> raises
  \<^verbatim>\<open>AttributeError\<close> unless \<^verbatim>\<open>data\<close> is a dictionary; \<^verbatim>\<open>'usage' in data['message']\<close> raises
  \<^verbatim>\<open>TypeError\<close> on a number, a boolean or \<^verbatim>\<open>None\<close>; \<^verbatim>\<open>data['message']['usage']\<close> raises
  \<^verbatim>\<open>TypeError\<close> on a list or a string; \<^verbatim>\<open>usage.get\<close> raises \<^verbatim>\<open>AttributeError\<close> unless
  \<^verbatim>\<open>usage\<close> is a dictionary.
\<close>

definition parse_line :: "string \<Rightarrow> json \<Rightarrow> line_result" where
  "parse_line parent_name data =
     (case data of
        JObject d \<Rightarrow>
          if map_of d ''type'' = Some (JString ''assistant'') \<and> map_of d ''message'' \<noteq> None
          then
            (case contains_usage (the (map_of d ''message'')) of
               None \<Rightarrow> Abort
             | Some False \<Rightarrow> Skip
             | Some True \<Rightarrow>
                 (case the (map_of d ''message'') of
                    JObject message \<Rightarrow>
                      (case the (map_of message ''usage'') of
                         JObject usage \<Rightarrow>
                           Emit
                             \<lparr>model = the_str (dict_get message ''model'' (JString ''unknown'')),
                              timestamp = the_str (dict_get d ''timestamp'' (JString [])),
                              input_tokens = the_int (dict_get usage ''input_tokens'' (JInt 0)),
                              output_tokens = the_int (dict_get usage ''output_tokens'' (JInt 0)),
                              cache_creation_input_tokens =
                                the_int (dict_get usage ''cache_creation_input_tokens'' (JInt 0)),
                              cache_read_input_tokens =
                                the_int (dict_get usage ''cache_read_input_tokens'' (JInt 0)),
                              session_id = the_str (dict_get d ''sessionId'' (JString [])),
                              project_dir = parent_name\<rparr>
                       | _ \<Rightarrow> Abort)
                  | _ \<Rightarrow> Abort))
          else Skip
      | _ \<Rightarrow> Abort)"

text \<open>
  The loop over the lines of the file. \<open>loads line\<close> is the outcome of
  \<^verbatim>\<open>json.loads(line.strip())\<close>. A \<^verbatim>\<open>JSONDecodeError\<close> reaches the inner handler
  (\<^verbatim>\<open>continue\<close>); any other exception ends the loop, and the function returns the entries
  collected so far.
\<close>

fun parse_lines ::
  "(string \<Rightarrow> decoded) \<Rightarrow> string \<Rightarrow> usage_record list \<Rightarrow> string list \<Rightarrow> usage_record list" where
  "parse_lines loads parent_name usage_data [] = usage_data"
| "parse_lines loads parent_name usage_data (line # lines) =
     (case loads line of
        JSONDecodeError \<Rightarrow> parse_lines loads parent_name usage_data lines
      | OtherException \<Rightarrow> usage_data
      | Value data \<Rightarrow>
          (case parse_line parent_name data of
             Emit entry \<Rightarrow> parse_lines loads parent_name (usage_data @ [entry]) lines
           | Skip \<Rightarrow> parse_lines loads parent_name usage_data lines
           | Abort \<Rightarrow> usage_data))"

text \<open>
  The file system: a path is the list of its components; \<open>exists\<close> is \<^verbatim>\<open>Path.exists\<close>,
  \<open>glob_jsonl d\<close> the list \<^verbatim>\<open>list(d.glob('**/*.jsonl'))\<close>, and \<open>read_lines p\<close> the lines of the
  file, \<open>None\<close> when \<^verbatim>\<open>open\<close> raises.
\<close>

type_synonym path = "string list"

record filesystem =
  home :: path
  exists :: "path \<Rightarrow> bool"
  glob_jsonl :: "path \<Rightarrow> path list"
  read_lines :: "path \<Rightarrow> string list option"

text \<open>\<^verbatim>\<open>Path(file_path).parent.name\<close>: the last component but one, empty when there is none.\<close>

definition parent_name_of :: "path \<Rightarrow> string" where
  "parent_name_of file_path =
     (if 2 \<le> length file_path then file_path ! (length file_path - 2) else [])"

definition parse_jsonl_file ::
  "filesystem \<Rightarrow> (string \<Rightarrow> decoded) \<Rightarrow> path \<Rightarrow> usage_record list" where
  "parse_jsonl_file FS loads file_path =
     (case read_lines FS file_path of
        None \<Rightarrow> []
      | Some lines \<Rightarrow> parse_lines loads (parent_name_of file_path) [] lines)"

definition find_claude_data_dir :: "filesystem \<Rightarrow> path option" where
  "find_claude_data_dir FS =
     (let claude_dir = home FS @ [''.claude'', ''projects'']
      in if exists FS claude_dir then Some claude_dir else None)"

text \<open>
  \<^verbatim>\<open>load_data\<close>, on the attribute \<^verbatim>\<open>self.usage_data\<close>: the argument is its value before the
  call, the result its value after. The \<^verbatim>\<open>return\<close> of the first branch comes before the
  assignment \<^verbatim>\<open>self.usage_data = []\<close>.
\<close>

definition load_data ::
  "filesystem \<Rightarrow> (string \<Rightarrow> decoded) \<Rightarrow> usage_record list \<Rightarrow> usage_record list" where
  "load_data FS loads usage_data =
     (case find_claude_data_dir FS of
        None \<Rightarrow> usage_data
      | Some claude_dir \<Rightarrow>
          foldl (\<lambda>acc file_path. acc @ parse_jsonl_file FS loads file_path) []
            (glob_jsonl FS claude_dir))"

text \<open>\<^verbatim>\<open>TokenData()\<close>: the attribute starts empty, then \<^verbatim>\<open>load_data\<close> runs.\<close>

definition init_token_data :: "filesystem \<Rightarrow> (string \<Rightarrow> decoded) \<Rightarrow> usage_record list" where
  "init_token_data FS loads = load_data FS loads []"

section \<open>Sample data\<close>

text \<open>Concrete records, used where a statement is evaluated on an input.\<close>

definition entry_sonnet :: usage_record where
  "entry_sonnet =
     \<lparr>model = ''claude-sonnet-4-20250514'', timestamp = ''2025-01-01T10:00:00Z'',
      input_tokens = 1000000, output_tokens = 0, cache_creation_input_tokens = 0,
      cache_read_input_tokens = 0, session_id = ''s1'', project_dir = ''proj''\<rparr>"

definition entry_unknown :: usage_record where
  "entry_unknown =
     \<lparr>model = ''unknown'', timestamp = ''2025-01-01T10:30:00Z'',
      input_tokens = 500000, output_tokens = 20, cache_creation_input_tokens = 3,
      cache_read_input_tokens = 4, session_id = ''s2'', project_dir = ''proj''\<rparr>"

text \<open>
  A record with a token count of 401 digits, which a log line can hold; and two records of one
  input token each.
\<close>

definition entry_huge :: usage_record where
  "entry_huge =
     \<lparr>model = ''claude-sonnet-4-20250514'', timestamp = ''2025-01-01T10:30:00Z'',
      input_tokens = 10 ^ 400, output_tokens = 0, cache_creation_input_tokens = 0,
      cache_read_input_tokens = 0, session_id = ''s1'', project_dir = ''proj''\<rparr>"

definition entry_one_sonnet :: usage_record where
  "entry_one_sonnet =
     \<lparr>model = ''claude-sonnet-4-20250514'', timestamp = ''2025-01-01T10:00:00Z'',
      input_tokens = 1, output_tokens = 0, cache_creation_input_tokens = 0,
      cache_read_input_tokens = 0, session_id = ''s1'', project_dir = ''proj''\<rparr>"

definition entry_one_opus :: usage_record where
  "entry_one_opus =
     \<lparr>model = ''claude-3-opus-20240229'', timestamp = ''2025-01-01T10:00:00Z'',
      input_tokens = 1, output_tokens = 0, cache_creation_input_tokens = 0,
      cache_read_input_tokens = 0, session_id = ''s1'', project_dir = ''proj''\<rparr>"

section \<open>Hourly usage\<close>

text \<open>
  The value of one key of the dictionary of \<^verbatim>\<open>get_hourly_usage\<close>. The cost of a new key is
  the integer \<^verbatim>\<open>0\<close>, which the first \<^verbatim>\<open>+=\<close> converts to the float zero.
\<close>

record hour_stats =
  tokens :: int
  cost :: pyfloat
  requests :: int

text \<open>
  One iteration of \<^verbatim>\<open>for entry in self.usage_data\<close>. A timestamp that does not parse makes
  \<^verbatim>\<open>get_local_datetime\<close> return \<^verbatim>\<open>None\<close>, which the \<^verbatim>\<open>if\<close> skips. The body stands in a
  \<^verbatim>\<open>try\<close> with \<^verbatim>\<open>except Exception: continue\<close>: when \<^verbatim>\<open>calculate_cost\<close> raises, the key has
  been created and the tokens have been added, and the updates of the cost and of the request
  count are not reached.
\<close>

definition hourly_step ::
  "'a platform \<Rightarrow> datetime \<Rightarrow> (string \<times> hour_stats) list \<Rightarrow> usage_record
     \<Rightarrow> (string \<times> hour_stats) list" where
  "hourly_step P cutoff hourly_data entry =
     (case get_local_datetime P (timestamp entry) of
        None \<Rightarrow> hourly_data
      | Some local_timestamp \<Rightarrow>
          if cutoff \<le> local_timestamp then
            (let hour_key = strftime_H00 local_timestamp;
                 hourly_data1 =
                   (if map_of hourly_data hour_key = None
                    then AList.update hour_key
                           \<lparr>tokens = 0, cost = Finite 0, requests = 0\<rparr> hourly_data
                    else hourly_data);
                 hourly_data2 =
                   AList.map_entry hour_key
                     (\<lambda>s. s\<lparr>tokens := tokens s + total_tokens entry\<rparr>) hourly_data1
             in case calculate_cost entry of
                  Inl e \<Rightarrow> hourly_data2
                | Inr c \<Rightarrow>
                    AList.map_entry hour_key
                      (\<lambda>s. s\<lparr>cost := fadd (cost s) c, requests := requests s + 1\<rparr>)
                      hourly_data2)
          else hourly_data)"

text \<open>
  \<^verbatim>\<open>get_hourly_usage(hours)\<close>. The cutoff is computed outside the \<^verbatim>\<open>try\<close>: an
  \<^verbatim>\<open>OverflowError\<close> of the time arithmetic reaches the caller.
\<close>

definition get_hourly_usage ::
  "'a platform \<Rightarrow> usage_record list \<Rightarrow> int \<Rightarrow> error + (string \<times> hour_stats) list" where
  "get_hourly_usage P usage_data hours =
     (case timedelta (hours_us hours) of
        Inl e \<Rightarrow> Inl e
      | Inr d \<Rightarrow>
          (case datetime_add (now P) (- d) of
             Inl e \<Rightarrow> Inl e
           | Inr cutoff \<Rightarrow> Inr (foldl (hourly_step P cutoff) [] usage_data)))"

text \<open>
  The records of one hour label in the words of the specification: those whose timestamp
  parses, whose local time is not before the cutoff, and whose local hour of the day has the
  label.
\<close>

definition in_hour :: "'a platform \<Rightarrow> datetime \<Rightarrow> string \<Rightarrow> usage_record \<Rightarrow> bool" where
  "in_hour P cutoff label entry =
     (case get_local_datetime P (timestamp entry) of
        None \<Rightarrow> False
      | Some t \<Rightarrow> cutoff \<le> t \<and> strftime_H00 t = label)"

definition hour_records :: "'a platform \<Rightarrow> datetime \<Rightarrow> string \<Rightarrow> usage_record list
    \<Rightarrow> usage_record list" where
  "hour_records P cutoff label usage_data = filter (in_hour P cutoff label) usage_data"

definition stats_of_hour :: "usage_record list \<Rightarrow> hour_stats" where
  "stats_of_hour rs =
     \<lparr>tokens = sum_list (map total_tokens rs),
      cost = float_sum (map spec_cost rs),
      requests = int (length rs)\<rparr>"

text \<open>The 24 labels \<^verbatim>\<open>00:00\<close>, ..., \<^verbatim>\<open>23:00\<close>.\<close>

definition hour_labels :: "string list" where
  "hour_labels = map (\<lambda>h. [digit (h div 10), digit (h mod 10)] @ '':00'') [0..<24]"

text \<open>The time arithmetic of a query with a window of \<open>us\<close> microseconds stays in range.\<close>

definition window_in_range :: "datetime \<Rightarrow> int \<Rightarrow> bool" where
  "window_in_range t us \<longleftrightarrow>
     - 999999999 \<le> us div 86400000000 \<and> us div 86400000000 \<le> 999999999
     \<and> 0 \<le> t - us \<and> t - us \<le> datetime_max"

text \<open>
  The iteration of the loop on an entry whose cost does not raise, and the accumulation of
  the entries of one label, for the invariant of the loop.
\<close>

definition hour_add :: "usage_record \<Rightarrow> hour_stats \<Rightarrow> hour_stats" where
  "hour_add entry s =
     \<lparr>tokens = tokens s + total_tokens entry, cost = fadd (cost s) (spec_cost entry),
      requests = requests s + 1\<rparr>"

definition hour_default :: hour_stats where
  "hour_default = \<lparr>tokens = 0, cost = Finite 0, requests = 0\<rparr>"

definition hour_from :: "hour_stats \<Rightarrow> usage_record list \<Rightarrow> hour_stats" where
  "hour_from s rs = foldl (\<lambda>s r. hour_add r s) s rs"

section \<open>Recent trend\<close>

text \<open>The inner loop of \<^verbatim>\<open>get_recent_trend\<close>: one entry, for one bucket.\<close>

definition bucket_step ::
  "'a platform \<Rightarrow> datetime \<Rightarrow> datetime \<Rightarrow> int \<Rightarrow> usage_record \<Rightarrow> int" where
  "bucket_step P bucket_start bucket_end bucket_tokens entry =
     (case get_local_datetime P (timestamp entry) of
        None \<Rightarrow> bucket_tokens
      | Some local_naive \<Rightarrow>
          if bucket_start \<le> local_naive \<and> local_naive < bucket_end
          then bucket_tokens + total_tokens entry
          else bucket_tokens)"

text \<open>
  The outer loop \<^verbatim>\<open>for i in range(6)\<close>, over the indices still to do. The bounds of a
  bucket are computed outside the \<^verbatim>\<open>try\<close>. The width of a bucket is the constant 10
  minutes of the source, whatever \<^verbatim>\<open>minutes\<close> is.
\<close>

fun trend_loop ::
  "'a platform \<Rightarrow> usage_record list \<Rightarrow> datetime \<Rightarrow> int list \<Rightarrow> nat list
     \<Rightarrow> error + int list" where
  "trend_loop P usage_data cutoff buckets [] = Inr buckets"
| "trend_loop P usage_data cutoff buckets (i # is) =
     (case datetime_add cutoff (minutes_us (int i * 10)) of
        Inl e \<Rightarrow> Inl e
      | Inr bucket_start \<Rightarrow>
          (case datetime_add bucket_start (minutes_us 10) of
             Inl e \<Rightarrow> Inl e
           | Inr bucket_end \<Rightarrow>
               trend_loop P usage_data cutoff
                 (buckets @ [foldl (bucket_step P bucket_start bucket_end) 0 usage_data]) is))"

definition get_recent_trend ::
  "'a platform \<Rightarrow> usage_record list \<Rightarrow> int \<Rightarrow> error + int list" where
  "get_recent_trend P usage_data minutes =
     (case timedelta (minutes_us minutes) of
        Inl e \<Rightarrow> Inl e
      | Inr d \<Rightarrow>
          (case datetime_add (now P) (- d) of
             Inl e \<Rightarrow> Inl e
           | Inr cutoff \<Rightarrow> trend_loop P usage_data cutoff [] [0, 1, 2, 3, 4, 5]))"

text \<open>
  The records of a time interval in the words of the specification: those whose timestamp
  parses and whose local time lies in the interval from \<open>a\<close> (included) to \<open>b\<close>
  (excluded); and the total tokens of these records.
\<close>

definition in_window :: "'a platform \<Rightarrow> datetime \<Rightarrow> datetime \<Rightarrow> usage_record \<Rightarrow> bool" where
  "in_window P a b entry =
     (case get_local_datetime P (timestamp entry) of
        None \<Rightarrow> False
      | Some t \<Rightarrow> a \<le> t \<and> t < b)"

definition window_tokens :: "'a platform \<Rightarrow> usage_record list \<Rightarrow> datetime \<Rightarrow> datetime \<Rightarrow> int" where
  "window_tokens P usage_data a b =
     sum_list (map total_tokens (filter (in_window P a b) usage_data))"

text \<open>
  The condition under which \<^verbatim>\<open>get_recent_trend\<close> raises nothing: the window is a valid
  \<^verbatim>\<open>timedelta\<close>, and the cutoff and the end of the sixth bucket are valid datetimes. The
  \<open>i\<close>-th bucket is the interval of 10 minutes that starts \<open>10 * i\<close> minutes after the
  cutoff.
\<close>

definition trend_in_range :: "datetime \<Rightarrow> int \<Rightarrow> bool" where
  "trend_in_range t minutes \<longleftrightarrow>
     window_in_range t (minutes_us minutes)
     \<and> t - minutes_us minutes + minutes_us 60 \<le> datetime_max"

definition trend_bucket :: "'a platform \<Rightarrow> usage_record list \<Rightarrow> datetime \<Rightarrow> nat \<Rightarrow> int" where
  "trend_bucket P usage_data cutoff i =
     window_tokens P usage_data
       (cutoff + minutes_us (10 * int i)) (cutoff + minutes_us (10 * int i + 10))"

text \<open>
  A platform for the sample data: a machine whose local zone is UTC, at 11:00 on
  2025-01-01, with a parser that knows the two sample timestamps.
\<close>

definition sample_platform :: "int platform" where
  "sample_platform =
     \<lparr>now = 63871326000000000,
      today = ''2025-01-01'',
      fromisoformat = map_of
        [(''2025-01-01T10:00:00+00:00'', 63871322400000000),
         (''2025-01-01T10:30:00+00:00'', 63871324200000000)],
      astimezone = Some\<rparr>"

text \<open>
  Log lines, a decoder that knows them (and rejects every other string), and a file system
  with two log files under the data root.
\<close>

definition line_assistant :: string where
  \<open>line_assistant = ''{"type":"assistant","sessionId":"s1","timestamp":"2025-01-01T10:00:00Z","message":{"model":"claude-sonnet-4-20250514","usage":{"input_tokens":1000000,"output_tokens":0,"cache_creation_input_tokens":0,"cache_read_input_tokens":0}}}''\<close>

definition line_user :: string where
  \<open>line_user = ''{"type":"user","sessionId":"s1"}''\<close>

definition line_malformed :: string where
  \<open>line_malformed = ''{"type":"assis''\<close>

definition line_number :: string where
  "line_number = ''42''"

definition sample_loads :: "string \<Rightarrow> decoded" where
  "sample_loads line =
     (if line = line_assistant then
        Value (JObject
          [(''type'', JString ''assistant''),
           (''sessionId'', JString ''s1''),
           (''timestamp'', JString ''2025-01-01T10:00:00Z''),
           (''message'', JObject
              [(''model'', JString ''claude-sonnet-4-20250514''),
               (''usage'', JObject
                  [(''input_tokens'', JInt 1000000),
                   (''output_tokens'', JInt 0),
                   (''cache_creation_input_tokens'', JInt 0),
                   (''cache_read_input_tokens'', JInt 0)])])])
      else if line = line_user then
        Value (JObject [(''type'', JString ''user''), (''sessionId'', JString ''s1'')])
      else if line = line_number then Value (JInt 42)
      else JSONDecodeError)"

definition sample_root :: path where
  "sample_root = [''home'', ''u'', ''.claude'', ''projects'']"

definition sample_files :: "(path \<times> string list) list" where
  "sample_files =
     [(sample_root @ [''proj'', ''a.jsonl''], [line_assistant, line_user, line_malformed]),
      (sample_root @ [''proj'', ''b.jsonl''], [line_number, line_assistant])]"

definition sample_fs :: filesystem where
  "sample_fs =
     \<lparr>home = [''home'', ''u''],
      exists = (\<lambda>p. p = sample_root),
      glob_jsonl = (\<lambda>d. if d = sample_root then map fst sample_files else []),
      read_lines = map_of sample_files\<rparr>"

text \<open>The same machine after the data root has been removed.\<close>

definition sample_fs_no_root :: filesystem where
  "sample_fs_no_root =
     \<lparr>home = [''home'', ''u''],
      exists = (\<lambda>p. False),
      glob_jsonl = (\<lambda>d. []),
      read_lines = (\<lambda>p. None)\<rparr>"

section \<open>Rounding to a double\<close>

lemma bit_length_bounds:
  "0 < n \<Longrightarrow> 2 ^ (bit_length n - 1) \<le> n \<and> n < 2 ^ bit_length n"
proof (induction n rule: bit_length.induct)
  case (1 n)
  have n: "n \<noteq> 0" using "1.prems" by simp
  have bl: "bit_length n = Suc (bit_length (n div 2))"
    using n by (simp add: bit_length.simps [of n])
  show ?case
  proof (cases "n div 2 = 0")
    case True
    with "1.prems" have "n = 1" by (simp add: div_eq_0_iff)
    then show ?thesis by (simp add: bit_length.simps)
  next
    case False
    then have pos: "0 < n div 2" by simp
    define k where "k = bit_length (n div 2) - 1"
    have "bit_length (n div 2) \<noteq> 0"
      using pos by (simp add: bit_length.simps [of "n div 2"])
    then have s: "bit_length (n div 2) = Suc k" by (simp add: k_def)
    define P :: nat where "P = 2 ^ k"
    from "1.IH" [OF n pos]
    have ih: "P \<le> n div 2" "n div 2 < 2 * P"
      by (simp_all add: s P_def)
    then have "2 * P \<le> n \<and> n < 4 * P" by presburger
    then show ?thesis
      by (simp add: bl s P_def)
  qed
qed

lemma bit_length_pos: "0 < n \<Longrightarrow> 0 < bit_length n"
  by (simp add: bit_length.simps [of n])

lemma floor_log2_bounds:
  assumes "0 < a"
  shows "2 powi floor_log2 a \<le> a" and "a < 2 powi (floor_log2 a + 1)"
proof -
  show "2 powi floor_log2 a \<le> a"
  proof (cases "1 \<le> a")
    case True
    define m where "m = nat \<lfloor>a\<rfloor>"
    have m: "0 < m" "rat_of_nat m \<le> a"
      using True by (simp_all add: m_def) 
    from bit_length_bounds [OF m(1)] have "2 ^ (bit_length m - 1) \<le> m" by simp
    then have "rat_of_nat (2 ^ (bit_length m - 1)) \<le> of_nat m"
      by (simp only: of_nat_le_iff)
    then have "(2::rat) ^ (bit_length m - 1) \<le> of_nat m"
      by simp
    with m(2) have "(2::rat) ^ (bit_length m - 1) \<le> a" by linarith
    moreover have "floor_log2 a = int (bit_length m - 1)"
      using True bit_length_pos [OF m(1)] by (simp add: floor_log2_def m_def)
    ultimately show ?thesis by simp
  next
    case False
    define z where "z = \<lceil>1 / a\<rceil>"
    have y: "1 < 1 / a" using False assms by simp
    then have z2: "2 \<le> z" unfolding z_def by linarith
    define c where "c = nat (z - 1)"
    have c: "0 < c" "int c = z - 1" using z2 by (simp_all add: c_def)
    from bit_length_bounds [OF c(1)] have "c < 2 ^ bit_length c" by simp
    then have "Suc c \<le> 2 ^ bit_length c" by simp
    then have "int (Suc c) \<le> int (2 ^ bit_length c)"
      by (simp only: of_nat_le_iff)
    then have "z \<le> 2 ^ bit_length c" using c(2) by simp
    then have "1 / a \<le> of_int (2 ^ bit_length c)"
      by (simp only: z_def ceiling_le_iff)
    then have "1 / a \<le> 2 ^ bit_length c"
      by simp
    then have "1 / 2 ^ bit_length c \<le> a"
      using assms by (simp add: field_simps)
    moreover have "floor_log2 a = - int (bit_length c)"
      using False by (simp add: floor_log2_def c_def z_def)
    ultimately show ?thesis
      by (simp add: power_int_minus field_simps)
  qed
  show "a < 2 powi (floor_log2 a + 1)"
  proof (cases "1 \<le> a")
    case True
    define m where "m = nat \<lfloor>a\<rfloor>"
    have m: "0 < m" "a < rat_of_nat m + 1"
      using True by (simp_all add: m_def) linarith
    from bit_length_bounds [OF m(1)] have "m < 2 ^ bit_length m" by simp
    then have "Suc m \<le> 2 ^ bit_length m" by simp
    then have "rat_of_nat (Suc m) \<le> rat_of_nat (2 ^ bit_length m)"
      by (simp only: of_nat_le_iff)
    then have "rat_of_nat m + 1 \<le> 2 ^ bit_length m"
      by simp
    with m(2) have "a < 2 ^ bit_length m" by linarith
    moreover have "floor_log2 a + 1 = int (bit_length m)"
      using True by (simp add: floor_log2_def m_def)
    ultimately show ?thesis by simp
  next
    case False
    define z where "z = \<lceil>1 / a\<rceil>"
    have y: "1 < 1 / a" using False assms by simp
    then have z2: "2 \<le> z" unfolding z_def by linarith
    define c where "c = nat (z - 1)"
    have c: "0 < c" "int c = z - 1" using z2 by (simp_all add: c_def)
    from bit_length_bounds [OF c(1)] have "2 ^ (bit_length c - 1) \<le> c" by simp
    then have "rat_of_nat (2 ^ (bit_length c - 1)) \<le> of_nat c"
      by (simp only: of_nat_le_iff)
    then have "(2::rat) ^ (bit_length c - 1) \<le> of_nat c"
      by simp
    also have "rat_of_nat c = of_int (z - 1)"
      using c(2) by (metis of_int_of_nat_eq)
    also have "\<dots> < 1 / a" unfolding z_def by linarith
    finally have "(2::rat) ^ (bit_length c - 1) < 1 / a" .
    then have lt: "a < 1 / 2 ^ (bit_length c - 1)"
      using assms by (simp add: field_simps)
    have "floor_log2 a + 1 = - int (bit_length c - 1)"
      using False bit_length_pos [OF c(1)] by (simp add: floor_log2_def c_def z_def)
    then show ?thesis
      using lt by (simp add: power_int_minus field_simps)
  qed
qed

lemma p2_pos [simp]: "0 < (2::rat) powi e"
  by simp

lemma p2_mono: "x \<le> y \<Longrightarrow> (2::rat) powi x \<le> 2 powi y"
  by (rule power_int_increasing) simp_all

lemma p2_less_exp: "(2::rat) powi x < 2 powi y \<Longrightarrow> x < y"
proof (rule ccontr)
  assume "(2::rat) powi x < 2 powi y" and "\<not> x < y"
  then have "(2::rat) powi y \<le> 2 powi x" by (simp add: p2_mono)
  with \<open>(2::rat) powi x < 2 powi y\<close> show False by simp
qed

lemma p2_add: "(2::rat) powi (x + y) = 2 powi x * 2 powi y"
  by (rule power_int_add) simp

lemma p2_diff: "(2::rat) powi (x - y) = 2 powi x / 2 powi y"
  by (rule power_int_diff) simp

lemma floor_log2_unique:
  assumes "0 < a" "2 powi e \<le> a" "a < 2 powi (e + 1)"
  shows "floor_log2 a = e"
proof -
  have "2 powi floor_log2 a \<le> a" "a < 2 powi (floor_log2 a + 1)"
    using floor_log2_bounds [OF assms(1)] by simp_all
  with assms have lt: "(2::rat) powi floor_log2 a < 2 powi (e + 1)"
    "(2::rat) powi e < 2 powi (floor_log2 a + 1)"
    by linarith+
  have "floor_log2 a < e + 1"
    using lt(1) by (rule p2_less_exp)
  moreover have "e < floor_log2 a + 1"
    using lt(2) by (rule p2_less_exp)
  ultimately show ?thesis by simp
qed

lemma quantum_eq:
  assumes "0 < a" "2 powi e \<le> a" "a < 2 powi (e + 1)"
  shows "quantum a = 2 powi (max e (- 1022) - 52)"
  by (simp add: quantum_def floor_log2_unique [OF assms])

lemma rhe_of_int [simp]: "round_half_even (of_int n) = n"
  by (simp add: round_half_even_def)

lemma rhe_unfold:
  "round_half_even x =
     (if x - of_int \<lfloor>x\<rfloor> < 1 / 2 then \<lfloor>x\<rfloor>
      else if 1 / 2 < x - of_int \<lfloor>x\<rfloor> then \<lfloor>x\<rfloor> + 1
      else if even \<lfloor>x\<rfloor> then \<lfloor>x\<rfloor> else \<lfloor>x\<rfloor> + 1)"
  by (simp add: round_half_even_def Let_def)

lemma rhe_bounds:
  "x - 1 / 2 \<le> of_int (round_half_even x)" "of_int (round_half_even x) \<le> x + 1 / 2"
proof -
  define f where "f = \<lfloor>x\<rfloor>"
  have fl: "of_int f \<le> x" "x < of_int f + 1"
    unfolding f_def by linarith+
  have r: "round_half_even x =
     (if x - of_int f < 1 / 2 then f
      else if 1 / 2 < x - of_int f then f + 1
      else if even f then f else f + 1)"
    unfolding f_def by (rule rhe_unfold)
  show "x - 1 / 2 \<le> of_int (round_half_even x)"
    using fl unfolding r by auto
  show "of_int (round_half_even x) \<le> x + 1 / 2"
    using fl unfolding r by auto
qed

lemma rhe_ge: "of_int k \<le> x \<Longrightarrow> k \<le> round_half_even x"
proof -
  assume "of_int k \<le> x"
  then have "k \<le> \<lfloor>x\<rfloor>" by (simp add: le_floor_iff)
  then show ?thesis by (auto simp: round_half_even_def Let_def)
qed

lemma rhe_le: "x \<le> of_int k \<Longrightarrow> round_half_even x \<le> k"
proof -
  assume le: "x \<le> of_int k"
  show ?thesis
  proof (cases "x = of_int k")
    case True
    then show ?thesis by simp
  next
    case False
    with le have "x < of_int k" by simp
    then have "\<lfloor>x\<rfloor> < k" by (simp add: floor_less_iff)
    then show ?thesis by (auto simp: round_half_even_def Let_def)
  qed
qed

lemma rhe_nonneg: "0 \<le> x \<Longrightarrow> 0 \<le> round_half_even x"
  using rhe_ge [of 0 x] by simp

lemma rhe_half_up:
  assumes "even k" "of_int k - 1 / 2 \<le> x"
  shows "k \<le> round_half_even x"
proof (cases "of_int k \<le> x")
  case True
  then show ?thesis by (rule rhe_ge)
next
  case False
  have "of_int (k - 1) \<le> x" using assms(2) by simp
  then have "k - 1 \<le> \<lfloor>x\<rfloor>" by (simp only: le_floor_iff)
  moreover have "\<lfloor>x\<rfloor> < k" using False by (simp add: floor_less_iff)
  ultimately have f: "\<lfloor>x\<rfloor> = k - 1" by simp
  then have odd: "odd \<lfloor>x\<rfloor>" using assms(1) by simp
  have "1 / 2 \<le> x - of_int \<lfloor>x\<rfloor>" using assms(2) f by simp
  then show ?thesis
    using odd f by (auto simp: round_half_even_def Let_def)
qed

lemma rhe_below_half:
  assumes "x < of_int k - 1 / 2"
  shows "round_half_even x < k"
proof -
  have "of_int (round_half_even x) \<le> x + 1 / 2" by (rule rhe_bounds)
  with assms have "(of_int (round_half_even x) :: rat) < of_int k" by linarith
  then show ?thesis by simp
qed

lemma round_zero [simp]: "round_to_double 0 = Finite 0"
  by (simp add: round_to_double_def)

lemma rhe_eqI:
  assumes "\<bar>x - of_int n\<bar> < 1 / 2"
  shows "round_half_even x = n"
proof -
  have "x - 1 / 2 \<le> of_int (round_half_even x)" "of_int (round_half_even x) \<le> x + 1 / 2"
    by (rule rhe_bounds)+
  with assms have "\<bar>(of_int (round_half_even x) :: rat) - of_int n\<bar> < 1"
    by linarith
  then have "\<bar>round_half_even x - n\<bar> < 1"
    by (metis of_int_1 of_int_abs of_int_diff of_int_less_iff)
  then show ?thesis by simp
qed

lemma rhe_tie:
  assumes "x = of_int n + 1 / 2"
  shows "round_half_even x = (if even n then n else n + 1)"
proof -
  have "\<lfloor>x\<rfloor> = n"
    unfolding assms by (rule floor_unique) simp_all
  then show ?thesis
    by (simp add: rhe_unfold assms)
qed

lemma round_pos:
  assumes "0 < a"
  shows "round_to_double a =
    (let u = quantum a; m = of_int (round_half_even (a / u)) * u
     in if 2 ^ 1024 \<le> m then PInf else Finite m)"
proof -
  have "a \<noteq> 0" "\<bar>a\<bar> = a" "sgn a = 1" using assms by simp_all
  then show ?thesis
    using assms by (simp only: round_to_double_def Let_def if_False if_True mult_1)
qed

lemma round_neg:
  assumes "a < 0"
  shows "round_to_double a =
    (let u = quantum (- a); m = of_int (round_half_even (- a / u)) * u
     in if 2 ^ 1024 \<le> m then NInf else Finite (- m))"
proof -
  have "a \<noteq> 0" "\<bar>a\<bar> = - a" "sgn a = - 1" "\<not> 0 < a" using assms by simp_all
  then show ?thesis
    by (simp only: round_to_double_def Let_def if_False mult_minus_left mult_1)
qed

lemma round_eval:
  assumes "0 < a" "2 powi e \<le> a" "a < 2 powi (e + 1)"
    and "round_half_even (a / 2 powi (max e (- 1022) - 52)) = n"
    and "of_int n * 2 powi (max e (- 1022) - 52) = m"
    and "m < 2 ^ 1024"
  shows "round_to_double a = Finite m"
proof -
  have q: "quantum a = 2 powi (max e (- 1022) - 52)"
    using assms(1-3) by (rule quantum_eq)
  have "\<not> 2 ^ 1024 \<le> m" using assms(6) by simp
  then show ?thesis
    unfolding round_pos [OF assms(1)] Let_def q assms(4) assms(5) by (simp only: if_False)
qed

lemma round_pos_setup:
  assumes "0 < a"
  defines "e \<equiv> max (floor_log2 a) (- 1022)"
  defines "u \<equiv> (2::rat) powi (e - 52)"
  defines "n \<equiv> round_half_even (a / u)"
  shows "quantum a = u" "0 < u" "0 \<le> n" "n \<le> 2 ^ 53"
    "- 1022 \<le> floor_log2 a \<Longrightarrow> 2 ^ 52 \<le> n"
    "2 ^ 53 * u = 2 powi (e + 1)" "2 ^ 52 * u = 2 powi e"
proof -
  show "quantum a = u" by (simp add: quantum_def u_def e_def)
  show u: "0 < u" by (simp add: u_def)
  have p53: "2 ^ 53 * u = 2 powi (53 + (e - 52))"
    unfolding u_def p2_add by simp
  then show eq53: "2 ^ 53 * u = 2 powi (e + 1)" by (simp add: add.commute)
  have p52: "2 ^ 52 * u = 2 powi (52 + (e - 52))"
    unfolding u_def p2_add by simp
  then show eq52: "2 ^ 52 * u = 2 powi e" by simp
  have bounds: "2 powi floor_log2 a \<le> a" "a < 2 powi (floor_log2 a + 1)"
    using floor_log2_bounds [OF assms(1)] by simp_all
  have "0 \<le> a / u" using assms(1) u by simp
  then show "0 \<le> n" unfolding n_def by (rule rhe_nonneg)
  have "(2::rat) powi (floor_log2 a + 1) \<le> 2 powi (e + 1)"
    by (rule p2_mono) (simp add: e_def)
  with bounds(2) have "a < 2 powi (e + 1)" by linarith
  then have "a < 2 ^ 53 * u" by (simp only: eq53)
  then have "a / u < 2 ^ 53"
    using u by (simp only: pos_divide_less_eq)
  then have "a / u \<le> of_int (2 ^ 53)"
    by (simp only: of_int_power of_int_numeral less_imp_le)
  then show "n \<le> 2 ^ 53" unfolding n_def by (rule rhe_le)
  show "2 ^ 52 \<le> n" if "- 1022 \<le> floor_log2 a"
  proof -
    from that have "e = floor_log2 a" by (simp add: e_def)
    with bounds(1) have "2 powi e \<le> a" by simp
    then have "2 ^ 52 * u \<le> a" by (simp only: eq52)
    then have "2 ^ 52 \<le> a / u"
      using u by (simp only: pos_le_divide_eq)
    then have "of_int (2 ^ 52) \<le> a / u"
      by (simp only: of_int_power of_int_numeral)
    then show ?thesis unfolding n_def by (rule rhe_ge)
  qed
qed

lemma round_pos_cases:
  assumes "0 < a"
  shows "round_to_double a = PInf \<or> (\<exists>m. round_to_double a = Finite m \<and> 0 \<le> m)"
proof -
  define u where "u = quantum a"
  define n where "n = round_half_even (a / u)"
  have "0 < u" "0 \<le> n"
    using round_pos_setup(1-3) [OF assms] by (simp_all add: u_def n_def)
  then have "0 \<le> of_int n * u" by simp
  then show ?thesis
    unfolding round_pos [OF assms] Let_def u_def [symmetric] n_def [symmetric] by simp
qed

lemma p2_1024: "(2::rat) ^ 1024 = 2 powi 1024" "(2::rat) ^ 1023 = 2 powi 1023"
  "(2::rat) ^ 971 = 2 powi 971"
  by simp_all

lemma round_pos_overflow:
  assumes "0 < a"
  shows "round_to_double a = PInf \<longleftrightarrow> 2 ^ 1024 - 2 ^ 970 \<le> a"
proof -
  define f where "f = floor_log2 a"
  define e where "e = max f (- 1022)"
  define u where "u = (2::rat) powi (e - 52)"
  define n where "n = round_half_even (a / u)"
  define m where "m = of_int n * u"
  note S = round_pos_setup [OF assms, folded f_def, folded e_def, folded u_def, folded n_def]
  have bounds: "2 powi f \<le> a" "a < 2 powi (f + 1)"
    using floor_log2_bounds [OF assms] by (simp_all add: f_def)
  have r: "round_to_double a = (if 2 ^ 1024 \<le> m then PInf else Finite m)"
    unfolding round_pos [OF assms] Let_def S(1) n_def [symmetric] m_def [symmetric] ..
  have "2 ^ 1024 \<le> m \<longleftrightarrow> 2 ^ 1024 - 2 ^ 970 \<le> a"
  proof
    assume big: "2 ^ 1024 - 2 ^ 970 \<le> a"
    have "(2::rat) ^ 1023 \<le> 2 ^ 1024 - 2 ^ 970" by simp
    with big have a1023: "2 powi 1023 \<le> a" unfolding p2_1024 by linarith
    have f: "1023 \<le> f"
    proof (rule ccontr)
      assume "\<not> 1023 \<le> f"
      then have "(2::rat) powi (f + 1) \<le> 2 powi 1023" by (intro p2_mono) simp
      with bounds(2) a1023 show False by linarith
    qed
    then have ef: "e = f" by (simp add: e_def)
    have n52: "2 ^ 52 \<le> n" using S(5) f by simp
    show "2 ^ 1024 \<le> m"
    proof (cases "1024 \<le> f")
      case True
      have "(2::rat) powi 1024 \<le> 2 powi e" unfolding ef using True by (rule p2_mono)
      also have "\<dots> = 2 ^ 52 * u" by (simp only: S(7))
      also have "\<dots> \<le> of_int n * u"
      proof (rule mult_right_mono)
        have "(of_int (2 ^ 52) :: rat) \<le> of_int n" using n52 by (simp only: of_int_le_iff)
        then show "(2::rat) ^ 52 \<le> of_int n" by simp
        show "0 \<le> u" using S(2) by simp
      qed
      finally show ?thesis by (simp only: m_def p2_1024)
    next
      case False
      with f have f1023: "f = 1023" by simp
      then have u971: "u = 2 powi 971" by (simp add: u_def ef)
      have "(2 ^ 53 - 1 / 2) * (2::rat) ^ 971 = 2 ^ 1024 - 2 ^ 970" by simp
      with big have "(2 ^ 53 - 1 / 2) * u \<le> a" unfolding u971 p2_1024 by simp
      then have "2 ^ 53 - 1 / 2 \<le> a / u"
        using S(2) by (simp only: pos_le_divide_eq)
      then have "of_int (2 ^ 53) - 1 / 2 \<le> a / u" by simp
      moreover have "even ((2::int) ^ 53)" by simp
      ultimately have "2 ^ 53 \<le> n" unfolding n_def by (intro rhe_half_up)
      then have "(of_int (2 ^ 53) :: rat) \<le> of_int n" by (simp only: of_int_le_iff)
      then have "(2::rat) ^ 53 \<le> of_int n" by simp
      then have "2 ^ 53 * u \<le> of_int n * u"
        using S(2) by (intro mult_right_mono) simp_all
      then have "2 powi (e + 1) \<le> m" by (simp only: S(6) m_def)
      then show ?thesis by (simp add: ef f1023)
    qed
  next
    assume big: "2 ^ 1024 \<le> m"
    show "2 ^ 1024 - 2 ^ 970 \<le> a"
    proof (rule ccontr)
      assume "\<not> 2 ^ 1024 - 2 ^ 970 \<le> a"
      then have small: "a < 2 ^ 1024 - 2 ^ 970" by simp
      have "(2::rat) ^ 1024 - 2 ^ 970 < 2 ^ 1024" by simp
      with small have a1024: "a < 2 powi 1024" unfolding p2_1024 by linarith
      have f: "f \<le> 1023"
      proof (rule ccontr)
        assume "\<not> f \<le> 1023"
        then have "(2::rat) powi 1024 \<le> 2 powi f" by (intro p2_mono) simp
        with bounds(1) a1024 show False by linarith
      qed
      then have e: "e \<le> 1023" by (simp add: e_def)
      have nle: "(of_int n :: rat) \<le> 2 ^ 53"
      proof -
        have "(of_int n :: rat) \<le> of_int (2 ^ 53)" using S(4) by (simp only: of_int_le_iff)
        then show ?thesis by simp
      qed
      show False
      proof (cases "e \<le> 1022")
        case True
        have "m \<le> 2 ^ 53 * u"
          unfolding m_def using nle S(2) by (intro mult_right_mono) simp_all
        also have "\<dots> = 2 powi (e + 1)" by (simp only: S(6))
        also have "\<dots> \<le> 2 powi 1023" using True by (intro p2_mono) simp
        also have "\<dots> < 2 ^ 1024" by simp
        finally show False using big by simp
      next
        case False
        with e have e1023: "e = 1023" by simp
        then have u971: "u = 2 powi 971" by (simp add: u_def)
        have "(2 ^ 53 - 1 / 2) * (2::rat) ^ 971 = 2 ^ 1024 - 2 ^ 970" by simp
        with small have "a < (2 ^ 53 - 1 / 2) * u" unfolding u971 p2_1024 by simp
        then have "a / u < 2 ^ 53 - 1 / 2"
          using S(2) by (simp only: pos_divide_less_eq)
        then have "a / u < of_int (2 ^ 53) - 1 / 2" by simp
        then have "n < 2 ^ 53" unfolding n_def by (rule rhe_below_half)
        then have "n \<le> 2 ^ 53 - 1" by simp
        then have "(of_int n :: rat) \<le> of_int (2 ^ 53 - 1)" by (simp only: of_int_le_iff)
        then have "(of_int n :: rat) \<le> 2 ^ 53 - 1" by simp
        then have "m \<le> (2 ^ 53 - 1) * u"
          unfolding m_def using S(2) by (intro mult_right_mono) simp_all
        also have "\<dots> < 2 ^ 1024" unfolding u971 by simp
        finally show False using big by simp
      qed
    qed
  qed
  then show ?thesis unfolding r by simp
qed

lemma round_pos_idem:
  assumes "0 < a" "round_to_double a = Finite m"
  shows "round_to_double m = Finite m"
proof -
  define f where "f = floor_log2 a"
  define e where "e = max f (- 1022)"
  define u where "u = (2::rat) powi (e - 52)"
  define n where "n = round_half_even (a / u)"
  note S = round_pos_setup [OF assms(1), folded f_def, folded e_def, folded u_def, folded n_def]
  have r: "round_to_double a = (if 2 ^ 1024 \<le> of_int n * u then PInf else Finite (of_int n * u))"
    unfolding round_pos [OF assms(1)] Let_def S(1) n_def [symmetric] ..
  with assms(2) have m: "m = of_int n * u" and lt: "m < 2 ^ 1024"
    by (simp_all split: if_splits)
  have e: "- 1022 \<le> e" by (simp add: e_def)
  show ?thesis
  proof (cases "n = 0")
    case True
    then show ?thesis by (simp add: m)
  next
    case False
    with S(3) have npos: "0 < n" by simp
    then have mpos: "0 < m" using S(2) by (simp add: m)
    show ?thesis
    proof (cases "n = 2 ^ 53")
      case True
      then have m53: "m = 2 powi (e + 1)"
        unfolding m using S(6) by simp
      have u': "(2::rat) powi (max (e + 1) (- 1022) - 52) = 2 powi (e - 51)"
        using e by (simp add: max_def)
      have ex: "52 + (e - 51) = e + 1" by simp
      have "(2::rat) powi (e + 1) = 2 powi (52 + (e - 51))" by (simp only: ex)
      also have "\<dots> = 2 ^ 52 * 2 powi (e - 51)" unfolding p2_add by simp
      finally have split: "(2::rat) powi (e + 1) = 2 ^ 52 * 2 powi (e - 51)" .
      show ?thesis
      proof (rule round_eval [where e = "e + 1" and n = "2 ^ 52"])
        show "0 < m" by (rule mpos)
        show "2 powi (e + 1) \<le> m" by (simp add: m53)
        show "m < 2 powi (e + 1 + 1)" unfolding m53 by (rule power_int_strict_increasing) simp_all
        show "round_half_even (m / 2 powi (max (e + 1) (- 1022) - 52)) = 2 ^ 52"
          unfolding u' m53 split using rhe_of_int [of "2 ^ 52"] by simp
        show "of_int (2 ^ 52) * 2 powi (max (e + 1) (- 1022) - 52) = m"
          unfolding u' m53 split by simp
        show "m < 2 ^ 1024" by (rule lt)
      qed
    next
      case False
      with S(4) have n53: "n < 2 ^ 53" by simp
      then have "(of_int n :: rat) < of_int (2 ^ 53)" by (simp only: of_int_less_iff)
      then have "(of_int n :: rat) < 2 ^ 53" by simp
      then have "m < 2 ^ 53 * u"
        unfolding m using S(2) by (intro mult_strict_right_mono)
      then have upper: "m < 2 powi (e + 1)" by (simp only: S(6))
      show ?thesis
      proof (cases "2 ^ 52 \<le> n")
        case True
        then have "(of_int (2 ^ 52) :: rat) \<le> of_int n" by (simp only: of_int_le_iff)
        then have "(2::rat) ^ 52 \<le> of_int n" by simp
        then have "2 ^ 52 * u \<le> m"
          unfolding m using S(2) by (intro mult_right_mono) simp_all
        then have lower: "2 powi e \<le> m" by (simp only: S(7))
        have u': "(2::rat) powi (max e (- 1022) - 52) = u"
          using e by (simp add: u_def max_def)
        show ?thesis
        proof (rule round_eval [where e = e and n = n])
          show "round_half_even (m / 2 powi (max e (- 1022) - 52)) = n"
            unfolding u' m using S(2) by simp
          show "of_int n * 2 powi (max e (- 1022) - 52) = m"
            unfolding u' m ..
        qed (fact mpos lower upper lt)+
      next
        case False
        then have n52: "n < 2 ^ 52" by simp
        have "\<not> - 1022 \<le> f" using S(5) n52 by auto
        then have e1022: "e = - 1022" by (simp add: e_def)
        from n52 have "(of_int n :: rat) < of_int (2 ^ 52)" by (simp only: of_int_less_iff)
        then have "(of_int n :: rat) < 2 ^ 52" by simp
        then have "m < 2 ^ 52 * u"
          unfolding m using S(2) by (intro mult_strict_right_mono)
        then have small: "m < 2 powi (- 1022)" by (simp only: S(7) e1022)
        define g where "g = floor_log2 m"
        have gb: "2 powi g \<le> m" "m < 2 powi (g + 1)"
          using floor_log2_bounds [OF mpos] by (simp_all add: g_def)
        with small have "(2::rat) powi g < 2 powi (- 1022)" by linarith
        then have "g < - 1022" by (rule p2_less_exp)
        then have u': "(2::rat) powi (max g (- 1022) - 52) = u"
          by (simp add: u_def e1022 max_def)
        show ?thesis
        proof (rule round_eval [where e = g and n = n])
          show "round_half_even (m / 2 powi (max g (- 1022) - 52)) = n"
            unfolding u' m using S(2) by simp
          show "of_int n * 2 powi (max g (- 1022) - 52) = m"
            unfolding u' m ..
        qed (fact mpos gb lt)+
      qed
    qed
  qed
qed

lemma round_minus: "round_to_double (- q) = fneg (round_to_double q)"
proof -
  consider "q = 0" | "0 < q" | "q < 0" by linarith
  then show ?thesis
  proof cases
    case 1
    then show ?thesis by (simp add: fneg_def)
  next
    case 2
    then have "- q < 0" by simp
    then show ?thesis
      unfolding round_neg [OF \<open>- q < 0\<close>] round_pos [OF 2] by (simp add: Let_def fneg_def)
  next
    case 3
    then have "0 < - q" by simp
    then show ?thesis
      unfolding round_neg [OF 3] round_pos [OF \<open>0 < - q\<close>] by (simp add: Let_def fneg_def)
  qed
qed

lemma round_idem:
  assumes "round_to_double q = Finite m"
  shows "round_to_double m = Finite m"
proof -
  consider "q = 0" | "0 < q" | "q < 0" by linarith
  then show ?thesis
  proof cases
    case 1
    with assms show ?thesis by simp
  next
    case 2
    then show ?thesis using assms by (rule round_pos_idem)
  next
    case 3
    then have pos: "0 < - q" by simp
    have "round_to_double (- q) = Finite (- m)"
      by (simp add: round_minus assms fneg_def)
    with pos have "round_to_double (- m) = Finite (- m)" by (rule round_pos_idem)
    then have "fneg (round_to_double m) = Finite (- m)" by (simp add: round_minus)
    then show ?thesis by (cases "round_to_double m") (simp_all add: fneg_def)
  qed
qed

lemma round_finite_iff:
  "(\<exists>x. round_to_double q = Finite x) \<longleftrightarrow> \<bar>q\<bar> < 2 ^ 1024 - 2 ^ 970"
proof -
  consider "q = 0" | "0 < q" | "q < 0" by linarith
  then show ?thesis
  proof cases
    case 1
    then show ?thesis by simp
  next
    case 2
    have "(\<exists>x. round_to_double q = Finite x) \<longleftrightarrow> round_to_double q \<noteq> PInf"
      using round_pos_cases [OF 2] by auto
    then show ?thesis
      using 2 by (simp add: round_pos_overflow [OF 2] not_le)
  next
    case 3
    then have pos: "0 < - q" by simp
    have "(\<exists>x. round_to_double (- q) = Finite x) \<longleftrightarrow> round_to_double (- q) \<noteq> PInf"
      using round_pos_cases [OF pos] by auto
    then have "(\<exists>x. round_to_double (- q) = Finite x) \<longleftrightarrow> \<bar>q\<bar> < 2 ^ 1024 - 2 ^ 970"
      using 3 by (simp add: round_pos_overflow [OF pos] not_le)
    moreover have "(\<exists>x. round_to_double (- q) = Finite x) \<longleftrightarrow> (\<exists>x. round_to_double q = Finite x)"
      unfolding round_minus by (cases "round_to_double q") (simp_all add: fneg_def)
    ultimately show ?thesis by simp
  qed
qed

lemma ge0_round: "0 \<le> q \<Longrightarrow> float_ge_zero (round_to_double q)"
proof (cases "q = 0")
  case True
  then show ?thesis by (simp add: float_ge_zero_def)
next
  case False
  assume "0 \<le> q"
  with False have "0 < q" by simp
  from round_pos_cases [OF this] show ?thesis
    by (auto simp: float_ge_zero_def)
qed

lemma ge0_fadd: "float_ge_zero x \<Longrightarrow> float_ge_zero y \<Longrightarrow> float_ge_zero (fadd x y)"
  by (cases x; cases y) (simp_all add: float_ge_zero_def ge0_round [unfolded float_ge_zero_def])

lemma ge0_fmul_finite: "0 \<le> a \<Longrightarrow> 0 \<le> b \<Longrightarrow> float_ge_zero (fmul (Finite a) (Finite b))"
  by (simp add: ge0_round)

lemma is_double_round [simp]: "is_double (round_to_double q)"
  by (cases "round_to_double q") (simp_all add: is_double_def round_idem)

lemma is_double_special [simp]: "is_double PInf" "is_double NInf" "is_double NaN"
  by (simp_all add: is_double_def)

lemma is_double_fadd [simp]: "is_double (fadd x y)"
  by (cases x; cases y) simp_all

lemma is_double_fmul [simp]: "is_double (fmul x y)"
  by (cases x; cases y) simp_all

lemma fadd_zero_left: "is_double x \<Longrightarrow> fadd (Finite 0) x = x"
  by (cases x) (simp_all add: is_double_def)

lemma rhe_numeral [simp]: "round_half_even (numeral k) = numeral k"
  using rhe_of_int [of "numeral k"] by simp

lemma round_one: "round_to_double 1 = Finite 1"
  by (rule round_eval [where e = 0 and n = "2 ^ 52"]) simp_all

lemma round_three: "round_to_double 3 = Finite 3"
  by (rule round_eval [where e = 1 and n = "3 * 2 ^ 51"]) simp_all

lemma round_six: "round_to_double 6 = Finite 6"
  by (rule round_eval [where e = 2 and n = "3 * 2 ^ 51"]) simp_all

lemma round_fifteen: "round_to_double 15 = Finite 15"
  by (rule round_eval [where e = 3 and n = "15 * 2 ^ 49"]) simp_all

lemma round_seventy_five: "round_to_double 75 = Finite 75"
  by (rule round_eval [where e = 6 and n = "75 * 2 ^ 46"]) simp_all

lemma round_3_75: "round_to_double (15 / 4) = Finite (15 / 4)"
  by (rule round_eval [where e = 1 and n = "15 * 2 ^ 49"]) simp_all

lemma round_18_75: "round_to_double (75 / 4) = Finite (75 / 4)"
  by (rule round_eval [where e = 4 and n = "75 * 2 ^ 46"]) simp_all

lemma round_1_5: "round_to_double (3 / 2) = Finite (3 / 2)"
  by (rule round_eval [where e = 0 and n = "3 * 2 ^ 51"]) simp_all

lemma round_0_3: "round_to_double (3 / 10) = Finite (5404319552844595 / 18014398509481984)"
  by (rule round_eval [where e = "- 2" and n = 5404319552844595]; (rule rhe_eqI)?) simp_all

lemmas float_literals =
  round_three round_fifteen round_seventy_five round_3_75 round_18_75 round_1_5 round_0_3

section \<open>Cost of one record\<close>

lemma div_million_eq:
  "div_million n =
     (if div_overflows n then Inl OverflowError
      else Inr (round_to_double (of_int n / 1000000)))"
proof -
  have ab: "\<bar>rat_of_int n / 1000000\<bar> = rat_of_int \<bar>n\<bar> / 1000000"
    by simp
  have "rat_of_int \<bar>n\<bar> / 1000000 < 2 ^ 1024 - 2 ^ 970 \<longleftrightarrow>
      rat_of_int \<bar>n\<bar> < (2 ^ 1024 - 2 ^ 970) * 1000000"
    by (rule pos_divide_less_eq) simp
  then have "\<bar>rat_of_int n / 1000000\<bar> < 2 ^ 1024 - 2 ^ 970 \<longleftrightarrow>
      rat_of_int \<bar>n\<bar> < (2 ^ 1024 - 2 ^ 970) * 1000000"
    by (simp only: ab)
  also have "(2 ^ 1024 - 2 ^ 970) * 1000000 = rat_of_int (1000000 * (2 ^ 1024 - 2 ^ 970))"
    by simp
  also have "rat_of_int \<bar>n\<bar> < rat_of_int (1000000 * (2 ^ 1024 - 2 ^ 970)) \<longleftrightarrow>
      \<bar>n\<bar> < 1000000 * (2 ^ 1024 - 2 ^ 970)"
    by (simp only: of_int_less_iff)
  also have "\<dots> \<longleftrightarrow> \<not> div_overflows n"
    by (simp only: div_overflows_def not_le)
  finally have fin: "(\<exists>x. round_to_double (of_int n / 1000000) = Finite x) \<longleftrightarrow> \<not> div_overflows n"
    by (simp only: round_finite_iff)
  show ?thesis
  proof (cases "round_to_double (of_int n / 1000000)")
    case (Finite x)
    with fin have "\<not> div_overflows n" by blast
    with Finite show ?thesis by (simp add: div_million_def)
  next
    case PInf
    with fin have "div_overflows n" by auto
    with PInf show ?thesis by (simp add: div_million_def)
  next
    case NInf
    with fin have "div_overflows n" by auto
    with NInf show ?thesis by (simp add: div_million_def)
  next
    case NaN
    with fin have "div_overflows n" by auto
    with NaN show ?thesis by (simp add: div_million_def)
  qed
qed

lemma default_pricing_present:
  "map_of PRICING ''claude-sonnet-4-20250514'' =
     Some \<lparr>input = float_literal 3, output = float_literal 15,
           cache_write = float_literal (375 / 100), cache_read = float_literal (30 / 100)\<rparr>"
  by (simp add: PRICING_def)

lemma pricing_for_spec_rates: "pricing_for m = spec_rates m"
proof (cases "map_of PRICING m")
  case None
  then have "m \<notin> fst ` set PRICING" by (simp add: map_of_eq_None_iff)
  with None show ?thesis by (simp add: pricing_for_def spec_rates_def default_model_def)
next
  case (Some p)
  then have "m \<in> fst ` set PRICING" by (metis map_of_eq_None_iff option.distinct(1))
  with Some show ?thesis by (simp add: pricing_for_def spec_rates_def)
qed

lemma pricing_for_cases:
  "pricing_for m =
     \<lparr>input = Finite 3, output = Finite 15, cache_write = Finite (15 / 4),
      cache_read = Finite (5404319552844595 / 18014398509481984)\<rparr>
   \<or> pricing_for m =
     \<lparr>input = Finite 15, output = Finite 75, cache_write = Finite (75 / 4),
      cache_read = Finite (3 / 2)\<rparr>"
  by (simp add: pricing_for_def PRICING_def float_literal_def float_literals)

lemma finite_ge0: "float_ge_zero x \<Longrightarrow> x \<noteq> PInf \<Longrightarrow> \<exists>b. x = Finite b \<and> 0 \<le> b"
  by (cases x) (simp_all add: float_ge_zero_def)

lemma rate_finite: "\<exists>b. rate_of (pricing_for m) c = Finite b \<and> 0 \<le> b"
proof (rule finite_ge0)
  show "float_ge_zero (rate_of (pricing_for m) c)"
    using pricing_for_cases [of m] by (cases c) (auto simp: float_ge_zero_def)
  show "rate_of (pricing_for m) c \<noteq> PInf"
    using pricing_for_cases [of m] by (cases c) auto
qed

lemma calculate_cost_eq:
  "calculate_cost r = (if cost_raises r then Inl OverflowError else Inr (spec_cost r))"
  by (simp add: calculate_cost_def div_million_eq Let_def cost_raises_def spec_cost_def
      spec_term_def pricing_for_spec_rates)

lemma spec_term_ge0:
  assumes "0 \<le> count_of r c" "\<not> div_overflows (count_of r c)"
  shows "float_ge_zero (spec_term r c)"
proof -
  have "div_million (count_of r c) = Inr (round_to_double (of_int (count_of r c) / 1000000))"
    using assms(2) by (simp add: div_million_eq)
  then obtain a where a: "round_to_double (of_int (count_of r c) / 1000000) = Finite a"
    by (cases "round_to_double (of_int (count_of r c) / 1000000)")
      (simp_all add: div_million_def)
  have "float_ge_zero (round_to_double (of_int (count_of r c) / 1000000))"
    using assms(1) by (intro ge0_round) simp
  then have a0: "0 \<le> a" by (simp add: a float_ge_zero_def)
  obtain b where b: "rate_of (pricing_for (model r)) c = Finite b" "0 \<le> b"
    using rate_finite by blast
  show ?thesis
    unfolding spec_term_def a pricing_for_spec_rates [symmetric] b(1)
    using a0 b(2) by (rule ge0_fmul_finite)
qed

lemma spec_cost_ge0:
  assumes "0 \<le> input_tokens r" "0 \<le> output_tokens r"
    "0 \<le> cache_creation_input_tokens r" "0 \<le> cache_read_input_tokens r"
    and "\<not> cost_raises r"
  shows "float_ge_zero (spec_cost r)"
proof -
  have "float_ge_zero (spec_term r c)" for c
    using assms by (cases c) (simp_all add: spec_term_ge0 cost_raises_def)
  then show ?thesis
    by (simp add: spec_cost_def ge0_fadd)
qed

lemma spec_term_zero:
  assumes "count_of r c = 0"
  shows "spec_term r c = Finite 0"
proof -
  obtain b where b: "rate_of (pricing_for (model r)) c = Finite b"
    using rate_finite by blast
  show ?thesis
    unfolding spec_term_def assms pricing_for_spec_rates [symmetric] b by simp
qed

lemma not_div_overflows_small: "\<bar>n\<bar> \<le> 10 ^ 300 \<Longrightarrow> \<not> div_overflows n"
  by (simp add: div_overflows_def)

lemma calculate_cost_zero:
  assumes "input_tokens r = 0" "output_tokens r = 0"
    "cache_creation_input_tokens r = 0" "cache_read_input_tokens r = 0"
  shows "calculate_cost r = Inr (Finite 0)"
proof -
  have "spec_term r c = Finite 0" for c
    using assms by (cases c) (simp_all add: spec_term_zero)
  moreover have "\<not> cost_raises r"
    using assms by (simp add: cost_raises_def not_div_overflows_small)
  ultimately show ?thesis
    by (simp add: calculate_cost_eq spec_cost_def)
qed

lemma calculate_cost_million:
  assumes "model r = ''claude-sonnet-4-20250514''" "input_tokens r = 1000000"
    "output_tokens r = 0" "cache_creation_input_tokens r = 0" "cache_read_input_tokens r = 0"
  shows "calculate_cost r = Inr (Finite 3)"
proof -
  have rates: "spec_rates (model r) =
      \<lparr>input = Finite 3, output = Finite 15, cache_write = Finite (15 / 4),
       cache_read = Finite (5404319552844595 / 18014398509481984)\<rparr>"
    unfolding pricing_for_spec_rates [symmetric] assms(1)
    by (simp add: pricing_for_def PRICING_def float_literal_def float_literals)
  have "spec_term r Input = Finite 3"
    by (simp add: spec_term_def assms(2) rates round_one round_three)
  moreover have "spec_term r c = Finite 0" if "c \<noteq> Input" for c
    using that assms by (cases c) (simp_all add: spec_term_zero)
  moreover have "\<not> cost_raises r"
    using assms by (simp add: cost_raises_def not_div_overflows_small)
  ultimately show ?thesis
    by (simp add: calculate_cost_eq spec_cost_def round_three)
qed

lemma calculate_cost_huge: "calculate_cost entry_huge = Inl OverflowError"
proof -
  have "div_overflows (10 ^ 400)"
    by (simp add: div_overflows_def)
  then have "cost_raises entry_huge"
    by (simp add: cost_raises_def entry_huge_def)
  then show ?thesis by (simp add: calculate_cost_eq)
qed

lemma calculate_cost_sonnet: "calculate_cost entry_sonnet = Inr (Finite 3)"
  by (rule calculate_cost_million) (simp_all add: entry_sonnet_def)

lemma spec_cost_sonnet: "spec_cost entry_sonnet = Finite 3" "\<not> cost_raises entry_sonnet"
  using calculate_cost_sonnet by (simp_all add: calculate_cost_eq split: if_splits)

text \<open>
  Claim C1, as the code has it. The division of a count by 1 000 000 raises
  \<^verbatim>\<open>OverflowError\<close> when the count is so large (about 1.8e314 or more in magnitude) that the
  quotient does not fit a float, and then \<^verbatim>\<open>calculate_cost\<close> raises. Otherwise the cost is
  the sum over the four token categories, in their order, of count / 1 000 000 times the rate,
  every operation being rounded to a double, with the rates of the record's model when the
  pricing table has it and those of \<^verbatim>\<open>claude-sonnet-4-20250514\<close> otherwise. When the four
  counts are non-negative a cost that is returned is non-negative, when they are all zero the
  cost is zero, and one million input tokens of the default model, with nothing else, cost
  3.0.
\<close>

theorem calculate_cost_formula:
  "calculate_cost r = (if cost_raises r then Inl OverflowError else Inr (spec_cost r))
   \<and> (0 \<le> input_tokens r \<and> 0 \<le> output_tokens r
        \<and> 0 \<le> cache_creation_input_tokens r \<and> 0 \<le> cache_read_input_tokens r
      \<longrightarrow> (\<forall>c. calculate_cost r = Inr c \<longrightarrow> float_ge_zero c))
   \<and> (input_tokens r = 0 \<and> output_tokens r = 0
        \<and> cache_creation_input_tokens r = 0 \<and> cache_read_input_tokens r = 0
      \<longrightarrow> calculate_cost r = Inr (Finite 0))
   \<and> (model r = ''claude-sonnet-4-20250514'' \<and> input_tokens r = 1000000
        \<and> output_tokens r = 0
        \<and> cache_creation_input_tokens r = 0 \<and> cache_read_input_tokens r = 0
      \<longrightarrow> calculate_cost r = Inr (Finite 3))"
proof (intro conjI impI allI)
  show "calculate_cost r = (if cost_raises r then Inl OverflowError else Inr (spec_cost r))"
    by (rule calculate_cost_eq)
next
  fix c
  assume nonneg: "0 \<le> input_tokens r \<and> 0 \<le> output_tokens r
    \<and> 0 \<le> cache_creation_input_tokens r \<and> 0 \<le> cache_read_input_tokens r"
    and c: "calculate_cost r = Inr c"
  from c have "\<not> cost_raises r" "c = spec_cost r"
    by (simp_all add: calculate_cost_eq split: if_splits)
  with nonneg show "float_ge_zero c"
    by (simp add: spec_cost_ge0)
next
  assume "input_tokens r = 0 \<and> output_tokens r = 0
    \<and> cache_creation_input_tokens r = 0 \<and> cache_read_input_tokens r = 0"
  then show "calculate_cost r = Inr (Finite 0)"
    by (simp add: calculate_cost_zero)
next
  assume "model r = ''claude-sonnet-4-20250514'' \<and> input_tokens r = 1000000
    \<and> output_tokens r = 0
    \<and> cache_creation_input_tokens r = 0 \<and> cache_read_input_tokens r = 0"
  then show "calculate_cost r = Inr (Finite 3)"
    by (simp add: calculate_cost_million)
qed

theorem calculate_cost_formula_witness:
  "calculate_cost entry_sonnet = Inr (Finite 3)
   \<and> float_ge_zero (Finite 3)
   \<and> calculate_cost
     \<lparr>model = ''unknown'', timestamp = [],
      input_tokens = 0, output_tokens = 0, cache_creation_input_tokens = 0,
      cache_read_input_tokens = 0, session_id = [], project_dir = ''proj''\<rparr> = Inr (Finite 0)
   \<and> cost_raises entry_huge
   \<and> calculate_cost entry_huge = Inl OverflowError"
proof -
  let ?zero = "\<lparr>model = ''unknown'', timestamp = [],
      input_tokens = 0, output_tokens = 0, cache_creation_input_tokens = 0,
      cache_read_input_tokens = 0, session_id = [], project_dir = ''proj''\<rparr>"
  have huge: "cost_raises entry_huge"
    by (simp add: cost_raises_def entry_huge_def div_overflows_def)
  have s: "model entry_sonnet = ''claude-sonnet-4-20250514'' \<and> input_tokens entry_sonnet = 1000000
      \<and> output_tokens entry_sonnet = 0
      \<and> cache_creation_input_tokens entry_sonnet = 0 \<and> cache_read_input_tokens entry_sonnet = 0"
    by (simp add: entry_sonnet_def)
  have n: "0 \<le> input_tokens entry_sonnet \<and> 0 \<le> output_tokens entry_sonnet
      \<and> 0 \<le> cache_creation_input_tokens entry_sonnet \<and> 0 \<le> cache_read_input_tokens entry_sonnet"
    by (simp add: entry_sonnet_def)
  have z: "input_tokens ?zero = 0 \<and> output_tokens ?zero = 0
      \<and> cache_creation_input_tokens ?zero = 0 \<and> cache_read_input_tokens ?zero = 0"
    by simp
  from calculate_cost_formula [of entry_sonnet] s
  have a: "calculate_cost entry_sonnet = Inr (Finite 3)" by blast
  from calculate_cost_formula [of entry_sonnet] n a
  have b: "float_ge_zero (Finite 3)" by blast
  from calculate_cost_formula [of ?zero] z
  have c: "calculate_cost ?zero = Inr (Finite 0)" by blast
  from calculate_cost_formula [of entry_huge] huge
  have d: "calculate_cost entry_huge = Inl OverflowError" by simp
  from a b c huge d show ?thesis by blast
qed

theorem calculate_cost_overflow_counterexample:
  "0 \<le> input_tokens entry_huge \<and> 0 \<le> output_tokens entry_huge
   \<and> 0 \<le> cache_creation_input_tokens entry_huge \<and> 0 \<le> cache_read_input_tokens entry_huge
   \<and> calculate_cost entry_huge = Inl OverflowError"
  by (simp add: calculate_cost_huge) (simp add: entry_huge_def)

section \<open>Today's records\<close>

lemma startswith_take: "startswith s p \<longleftrightarrow> take (length p) s = p"
  by (induction s p rule: startswith.induct) auto

text \<open>
  Claim C8. \<^verbatim>\<open>get_today_data\<close> returns, in their order, exactly the records of the collection
  whose timestamp string begins with the ISO string of the current local date (the string is
  compared as it is, with no conversion of the timestamp to local time); on the empty
  collection the result is empty.
\<close>

theorem get_today_data_prefix:
  "get_today_data P usage_data =
     [entry \<leftarrow> usage_data. take (length (today P)) (timestamp entry) = today P]
   \<and> get_today_data P [] = []"
  by (simp add: get_today_data_def startswith_take)

section \<open>Recent activity\<close>

lemma slice_to_take: "0 \<le> limit \<Longrightarrow> slice_to limit xs = take (nat limit) xs"
  by (simp add: slice_to_def)

lemma mset_sorted_reverse: "mset (sorted_reverse xs) = mset xs"
  by (simp add: sorted_reverse_def)

lemma sorted_reverse_descending:
  "sorted_wrt (\<lambda>a b. timestamp b \<le> timestamp a) (sorted_reverse xs)"
proof -
  have "sorted (map timestamp (sort_key timestamp (rev xs)))"
    by (rule sorted_sort_key)
  then have "sorted (rev (map timestamp (sorted_reverse xs)))"
    by (simp add: sorted_reverse_def rev_map)
  then have "sorted_wrt (\<lambda>a b. b \<le> a) (map timestamp (sorted_reverse xs))"
    by (simp add: sorted_wrt_rev)
  then show ?thesis
    by (simp add: sorted_wrt_map)
qed

lemma sorted_wrt_take: "sorted_wrt R xs \<Longrightarrow> sorted_wrt R (take n xs)"
  by (metis append_take_drop_id sorted_wrt_append)

lemma mset_take_subset: "mset (take n xs) \<subseteq># mset xs"
  by (metis append_take_drop_id mset_subset_eq_add_left union_code)

text \<open>
  Claim C9. For a limit \<open>n \<ge> 0\<close>, \<^verbatim>\<open>get_recent_activity(n)\<close> returns at most \<open>n\<close> records,
  in descending order of their timestamp strings (the lexicographic order of strings), and as
  a multiset the result is contained in the collection.
\<close>

theorem get_recent_activity_sorted_prefix:
  assumes "0 \<le> n"
  shows "length (get_recent_activity usage_data n) \<le> nat n
    \<and> sorted_wrt (\<lambda>a b. timestamp b \<le> timestamp a) (get_recent_activity usage_data n)
    \<and> mset (get_recent_activity usage_data n) \<subseteq># mset usage_data"
proof -
  have eq: "get_recent_activity usage_data n = take (nat n) (sorted_reverse usage_data)"
    using assms by (simp add: get_recent_activity_def slice_to_take)
  have "mset (take (nat n) (sorted_reverse usage_data)) \<subseteq># mset (sorted_reverse usage_data)"
    by (rule mset_take_subset)
  then have "mset (take (nat n) (sorted_reverse usage_data)) \<subseteq># mset usage_data"
    by (simp add: mset_sorted_reverse)
  then show ?thesis
    unfolding eq by (simp add: sorted_wrt_take sorted_reverse_descending)
qed

theorem get_recent_activity_sorted_prefix_witness:
  "length (get_recent_activity [entry_sonnet, entry_unknown, entry_sonnet] 2) \<le> nat 2
   \<and> sorted_wrt (\<lambda>a b. timestamp b \<le> timestamp a)
        (get_recent_activity [entry_sonnet, entry_unknown, entry_sonnet] 2)
   \<and> mset (get_recent_activity [entry_sonnet, entry_unknown, entry_sonnet] 2)
        \<subseteq># mset [entry_sonnet, entry_unknown, entry_sonnet]
   \<and> get_recent_activity [entry_sonnet, entry_unknown, entry_sonnet] 2 =
        [entry_unknown, entry_sonnet]"
proof -
  have "get_recent_activity [entry_sonnet, entry_unknown, entry_sonnet] 2 =
      [entry_unknown, entry_sonnet]"
    by (simp add: get_recent_activity_def slice_to_def sorted_reverse_def
        entry_sonnet_def entry_unknown_def)
  then show ?thesis
    using get_recent_activity_sorted_prefix
      [of 2 "[entry_sonnet, entry_unknown, entry_sonnet]"]
    by simp
qed

section \<open>Recent trend\<close>

lemma bucket_step_in_window:
  "bucket_step P a b acc entry =
     (if in_window P a b entry then acc + total_tokens entry else acc)"
  by (cases "get_local_datetime P (timestamp entry)")
    (simp_all add: bucket_step_def in_window_def)

lemma bucket_loop:
  "foldl (bucket_step P a b) acc usage_data = acc + window_tokens P usage_data a b"
proof (induction usage_data arbitrary: acc)
  case Nil
  show ?case by (simp add: window_tokens_def)
next
  case (Cons entry usage_data)
  have w: "window_tokens P (entry # usage_data) a b =
      (if in_window P a b entry then total_tokens entry else 0) + window_tokens P usage_data a b"
    by (simp add: window_tokens_def)
  have "foldl (bucket_step P a b) acc (entry # usage_data) =
      bucket_step P a b acc entry + window_tokens P usage_data a b"
    by (simp add: Cons.IH)
  also have "bucket_step P a b acc entry =
      (if in_window P a b entry then acc + total_tokens entry else acc)"
    by (rule bucket_step_in_window)
  finally show ?case
    by (simp add: w)
qed

lemma in_window_split:
  assumes "a \<le> b" "b \<le> c"
  shows "in_window P a c entry \<longleftrightarrow> in_window P a b entry \<or> in_window P b c entry"
    and "\<not> (in_window P a b entry \<and> in_window P b c entry)"
  using assms
  by (cases "get_local_datetime P (timestamp entry)"; auto simp: in_window_def)+

lemma window_tokens_split:
  assumes "a \<le> b" "b \<le> c"
  shows "window_tokens P usage_data a b + window_tokens P usage_data b c =
    window_tokens P usage_data a c"
proof (induction usage_data)
  case Nil
  show ?case by (simp add: window_tokens_def)
next
  case (Cons entry usage_data)
  have w: "window_tokens P (entry # usage_data) x y =
      (if in_window P x y entry then total_tokens entry else 0) + window_tokens P usage_data x y"
    for x y
    by (simp add: window_tokens_def)
  show ?case
    using Cons.IH in_window_split [OF assms, of P entry]
    by (auto simp: w)
qed

lemma window_tokens_empty: "window_tokens P usage_data c c = 0"
proof -
  have "\<not> in_window P c c entry" for entry
    by (cases "get_local_datetime P (timestamp entry)") (simp_all add: in_window_def)
  then have "filter (in_window P c c) usage_data = []"
    by (simp add: filter_empty_conv)
  then show ?thesis by (simp add: window_tokens_def)
qed

lemma trend_loop_step:
  "trend_loop P usage_data cutoff buckets (i # is) =
     (if 0 \<le> cutoff + minutes_us (10 * int i)
         \<and> cutoff + minutes_us (10 * int i + 10) \<le> datetime_max
      then trend_loop P usage_data cutoff (buckets @ [trend_bucket P usage_data cutoff i]) is
      else Inl OverflowError)"
  by (auto simp: datetime_add_def minutes_us_def bucket_loop trend_bucket_def algebra_simps)

lemma trend_loop_six:
  "trend_loop P usage_data cutoff [] [0, 1, 2, 3, 4, 5] =
     (if 0 \<le> cutoff \<and> cutoff + minutes_us 60 \<le> datetime_max
      then Inr (map (trend_bucket P usage_data cutoff) [0, 1, 2, 3, 4, 5])
      else Inl OverflowError)"
proof (cases "0 \<le> cutoff \<and> cutoff + minutes_us 60 \<le> datetime_max")
  case True
  then have ok: "0 \<le> cutoff + minutes_us (10 * int i)
      \<and> cutoff + minutes_us (10 * int i + 10) \<le> datetime_max" if "i \<le> 5" for i
    using that by (simp add: minutes_us_def)
  show ?thesis
    unfolding trend_loop_step trend_loop.simps(1)
    using True ok [of 0] ok [of 1] ok [of 2] ok [of 3] ok [of 4] ok [of 5]
    by simp
next
  case False
  show ?thesis
  proof (cases "0 \<le> cutoff")
    case True
    with False have "\<not> cutoff + minutes_us (10 * int 5 + 10) \<le> datetime_max"
      by simp
    with False show ?thesis
      unfolding trend_loop_step trend_loop.simps(1) by simp
  next
    case False
    then have "\<not> 0 \<le> cutoff + minutes_us (10 * int 0)"
      by (simp add: minutes_us_def)
    with False show ?thesis
      unfolding trend_loop_step [of _ _ _ _ 0] by simp
  qed
qed

lemma get_recent_trend_eq:
  "get_recent_trend P usage_data minutes =
     (if trend_in_range (now P) minutes
      then Inr (map (trend_bucket P usage_data (now P - minutes_us minutes)) [0, 1, 2, 3, 4, 5])
      else Inl OverflowError)"
proof (cases "timedelta (minutes_us minutes)")
  case (Inl e)
  then have "\<not> trend_in_range (now P) minutes"
    by (auto simp: timedelta_def trend_in_range_def window_in_range_def split: if_splits)
  moreover have "e = OverflowError"
    by (cases e) simp
  ultimately show ?thesis
    using Inl by (simp add: get_recent_trend_def)
next
  case (Inr d)
  then have d: "d = minutes_us minutes"
    and days: "- 999999999 \<le> minutes_us minutes div 86400000000"
      "minutes_us minutes div 86400000000 \<le> 999999999"
    by (auto simp: timedelta_def split: if_splits)
  show ?thesis
  proof (cases "0 \<le> now P - d \<and> now P - d \<le> datetime_max")
    case True
    then have "datetime_add (now P) (- d) = Inr (now P - d)"
      by (simp add: datetime_add_def)
    then have "get_recent_trend P usage_data minutes =
        trend_loop P usage_data (now P - d) [] [0, 1, 2, 3, 4, 5]"
      using Inr by (simp add: get_recent_trend_def del: trend_loop.simps)
    also have "\<dots> =
        (if 0 \<le> now P - d \<and> now P - d + minutes_us 60 \<le> datetime_max
         then Inr (map (trend_bucket P usage_data (now P - d)) [0, 1, 2, 3, 4, 5])
         else Inl OverflowError)"
      by (rule trend_loop_six)
    finally show ?thesis
      using True days by (simp add: d trend_in_range_def window_in_range_def)
  next
    case False
    then have "datetime_add (now P) (- d) = Inl OverflowError"
      by (simp add: datetime_add_def)
    then have "get_recent_trend P usage_data minutes = Inl OverflowError"
      using Inr by (simp add: get_recent_trend_def)
    moreover have "\<not> trend_in_range (now P) minutes"
      using False by (auto simp: d trend_in_range_def window_in_range_def)
    ultimately show ?thesis by simp
  qed
qed

lemma trend_buckets_sum:
  "sum_list (map (trend_bucket P usage_data c) [0, 1, 2, 3, 4, 5]) =
     window_tokens P usage_data c (c + minutes_us 60)"
proof -
  have step: "window_tokens P usage_data c (c + minutes_us (10 * int i))
      + trend_bucket P usage_data c i =
      window_tokens P usage_data c (c + minutes_us (10 * int i + 10))" for i
    unfolding trend_bucket_def
    by (rule window_tokens_split) (simp_all add: minutes_us_def)
  have zero: "window_tokens P usage_data c c = 0"
    by (rule window_tokens_empty)
  have m0: "minutes_us 0 = 0"
    by (simp add: minutes_us_def)
  show ?thesis
    using step [of 0] step [of 1] step [of 2] step [of 3] step [of 4] step [of 5] zero
    by (simp add: m0)
qed

text \<open>
  Claim C5, as the code has it. The buckets are 10 minutes wide whatever the window is: when
  the time arithmetic stays in range, \<^verbatim>\<open>get_recent_trend(minutes)\<close> returns six integers,
  the \<open>i\<close>-th being the total tokens of the records whose timestamp parses and whose local
  time lies in the interval of 10 minutes that starts \<open>10 * i\<close> minutes after
  \<open>now - minutes\<close> (start included, end excluded), in chronological order; otherwise the
  call raises \<^verbatim>\<open>OverflowError\<close>. The six buckets add up to the total tokens of the records
  in the 60 minutes that start at \<open>now - minutes\<close>; for \<open>minutes = 60\<close> this is the
  interval from \<open>now - 60 minutes\<close> to \<open>now\<close>. Records outside the intervals, and
  records whose timestamp does not parse, add nothing.
\<close>

theorem get_recent_trend_ten_minute_buckets:
  "get_recent_trend P usage_data minutes =
     (if trend_in_range (now P) minutes
      then Inr (map (trend_bucket P usage_data (now P - minutes_us minutes)) [0, 1, 2, 3, 4, 5])
      else Inl OverflowError)
   \<and> (\<forall>bs. get_recent_trend P usage_data minutes = Inr bs \<longrightarrow>
         length bs = 6
         \<and> sum_list bs =
             window_tokens P usage_data (now P - minutes_us minutes)
               (now P - minutes_us minutes + minutes_us 60))
   \<and> (\<forall>bs. get_recent_trend P usage_data 60 = Inr bs \<longrightarrow>
         sum_list bs = window_tokens P usage_data (now P - minutes_us 60) (now P))"
proof (intro conjI allI impI)
  show "get_recent_trend P usage_data minutes =
     (if trend_in_range (now P) minutes
      then Inr (map (trend_bucket P usage_data (now P - minutes_us minutes)) [0, 1, 2, 3, 4, 5])
      else Inl OverflowError)"
    by (rule get_recent_trend_eq)
next
  fix bs
  assume "get_recent_trend P usage_data minutes = Inr bs"
  then have bs: "bs = map (trend_bucket P usage_data (now P - minutes_us minutes)) [0, 1, 2, 3, 4, 5]"
    by (simp add: get_recent_trend_eq split: if_splits)
  show "length bs = 6"
    by (simp add: bs)
  show "sum_list bs =
      window_tokens P usage_data (now P - minutes_us minutes)
        (now P - minutes_us minutes + minutes_us 60)"
    unfolding bs by (rule trend_buckets_sum)
next
  fix bs
  assume "get_recent_trend P usage_data 60 = Inr bs"
  then have bs: "bs = map (trend_bucket P usage_data (now P - minutes_us 60)) [0, 1, 2, 3, 4, 5]"
    by (simp add: get_recent_trend_eq split: if_splits)
  have "sum_list bs =
      window_tokens P usage_data (now P - minutes_us 60) (now P - minutes_us 60 + minutes_us 60)"
    unfolding bs by (rule trend_buckets_sum)
  then show "sum_list bs = window_tokens P usage_data (now P - minutes_us 60) (now P)"
    by simp
qed

lemma sample_local_datetime:
  "get_local_datetime sample_platform (timestamp entry_sonnet) = Some 63871322400000000"
  "get_local_datetime sample_platform (timestamp entry_unknown) = Some 63871324200000000"
  by (simp_all add: get_local_datetime_def sample_platform_def replace_Z_def
      entry_sonnet_def entry_unknown_def)

lemma sample_total_tokens:
  "total_tokens entry_sonnet = 1000000" "total_tokens entry_unknown = 500027"
  by (simp_all add: total_tokens_def entry_sonnet_def entry_unknown_def)

lemma sample_now: "now sample_platform = 63871326000000000"
  by (simp add: sample_platform_def)

theorem get_recent_trend_ten_minute_buckets_witness:
  "get_recent_trend sample_platform [entry_sonnet, entry_unknown] 60 =
     Inr [1000000, 0, 0, 500027, 0, 0]
   \<and> sum_list [1000000, 0, 0, 500027, 0, 0] =
     window_tokens sample_platform [entry_sonnet, entry_unknown]
       (now sample_platform - minutes_us 60) (now sample_platform)"
proof -
  have ev: "get_recent_trend sample_platform [entry_sonnet, entry_unknown] 60 =
      Inr [1000000, 0, 0, 500027, 0, 0]"
    by (simp add: get_recent_trend_def timedelta_def datetime_add_def datetime_max_def
        minutes_us_def bucket_step_def sample_local_datetime sample_total_tokens sample_now)
  with get_recent_trend_ten_minute_buckets [of sample_platform "[entry_sonnet, entry_unknown]" 60]
  show ?thesis
    by blast
qed

theorem get_recent_trend_window_counterexample:
  "get_recent_trend sample_platform [entry_sonnet, entry_unknown] 120 = Inr [0, 0, 0, 0, 0, 0]
   \<and> window_tokens sample_platform [entry_sonnet, entry_unknown]
       (now sample_platform - minutes_us 120) (now sample_platform) = 1500027
   \<and> sum_list [0, 0, 0, 0, 0, 0] \<noteq>
       window_tokens sample_platform [entry_sonnet, entry_unknown]
         (now sample_platform - minutes_us 120) (now sample_platform)"
proof -
  have ev: "get_recent_trend sample_platform [entry_sonnet, entry_unknown] 120 =
      Inr [0, 0, 0, 0, 0, 0]"
    by (simp add: get_recent_trend_def timedelta_def datetime_add_def datetime_max_def
        minutes_us_def bucket_step_def sample_local_datetime sample_total_tokens sample_now)
  have w: "window_tokens sample_platform [entry_sonnet, entry_unknown]
      (now sample_platform - minutes_us 120) (now sample_platform) = 1500027"
    by (simp add: window_tokens_def in_window_def minutes_us_def
        sample_local_datetime sample_total_tokens sample_now)
  from ev w show ?thesis by simp
qed

section \<open>Ingestion\<close>

text \<open>What the loop of \<^verbatim>\<open>parse_jsonl_file\<close> does with one line, by the kind of the line.\<close>

lemma parse_lines_decode_error:
  "loads line = JSONDecodeError \<Longrightarrow>
   parse_lines loads p usage_data (line # lines) = parse_lines loads p usage_data lines"
  by simp

lemma parse_lines_other_type:
  "loads line = Value (JObject d) \<Longrightarrow> map_of d ''type'' \<noteq> Some (JString ''assistant'') \<Longrightarrow>
   parse_lines loads p usage_data (line # lines) = parse_lines loads p usage_data lines"
  by (simp add: parse_line_def)

lemma parse_lines_no_message:
  "loads line = Value (JObject d) \<Longrightarrow> map_of d ''message'' = None \<Longrightarrow>
   parse_lines loads p usage_data (line # lines) = parse_lines loads p usage_data lines"
  by (simp add: parse_line_def)

lemma parse_lines_no_usage:
  "loads line = Value (JObject d) \<Longrightarrow> map_of d ''message'' = Some (JObject m) \<Longrightarrow>
   map_of m ''usage'' = None \<Longrightarrow>
   parse_lines loads p usage_data (line # lines) = parse_lines loads p usage_data lines"
  by (simp add: parse_line_def)

lemma parse_lines_not_a_dict:
  "loads line = Value data \<Longrightarrow> \<forall>d. data \<noteq> JObject d \<Longrightarrow>
   parse_lines loads p usage_data (line # lines) = usage_data"
  by (cases data) (simp_all add: parse_line_def)

lemma parse_jsonl_file_unreadable:
  "read_lines FS file_path = None \<Longrightarrow> parse_jsonl_file FS loads file_path = []"
  by (simp add: parse_jsonl_file_def)

lemma sample_lines_distinct:
  "line_user \<noteq> line_assistant" "line_malformed \<noteq> line_assistant"
  "line_malformed \<noteq> line_user" "line_malformed \<noteq> line_number"
  "line_number \<noteq> line_assistant" "line_number \<noteq> line_user"
  by (simp_all add: line_assistant_def line_user_def line_malformed_def line_number_def)

lemma sample_read_lines:
  "read_lines sample_fs (sample_root @ [''proj'', ''a.jsonl'']) =
     Some [line_assistant, line_user, line_malformed]"
  "read_lines sample_fs (sample_root @ [''proj'', ''b.jsonl'']) =
     Some [line_number, line_assistant]"
  "read_lines sample_fs (sample_root @ [''proj'', ''missing.jsonl'']) = None"
  by (simp_all add: sample_fs_def sample_files_def)

lemma sample_parent_name: "parent_name_of (sample_root @ [''proj'', f]) = ''proj''"
  by (simp add: parent_name_of_def sample_root_def)

lemma sample_parse_line:
  "sample_loads line_malformed = JSONDecodeError"
  "sample_loads line_number = Value (JInt 42)"
  "\<exists>d. sample_loads line_user = Value (JObject d) \<and> parse_line ''proj'' (JObject d) = Skip"
  "\<exists>d. sample_loads line_assistant = Value (JObject d)
     \<and> parse_line ''proj'' (JObject d) = Emit entry_sonnet"
  by (simp_all add: sample_loads_def sample_lines_distinct parse_line_def dict_get_def
      entry_sonnet_def)

text \<open>
  Claim C3, on the code. A file of three lines (a valid assistant usage line, a line of
  another type, a malformed line) yields exactly one record, and a file that cannot be opened
  yields none. But a line that decodes to a value that is not a dictionary ends the reading
  of the file: of the file whose lines are \<^verbatim>\<open>42\<close> and a valid assistant usage line, nothing
  is read, and the record of the second line is lost.
\<close>

theorem parse_jsonl_file_stops_at_non_dict_line:
  "parse_jsonl_file sample_fs sample_loads (sample_root @ [''proj'', ''a.jsonl'']) =
     [entry_sonnet]
   \<and> parse_jsonl_file sample_fs sample_loads (sample_root @ [''proj'', ''missing.jsonl'']) = []
   \<and> read_lines sample_fs (sample_root @ [''proj'', ''b.jsonl'']) =
       Some [line_number, line_assistant]
   \<and> parse_jsonl_file sample_fs sample_loads (sample_root @ [''proj'', ''b.jsonl'']) = []
   \<and> parse_lines sample_loads ''proj'' [] [line_assistant] = [entry_sonnet]"
proof -
  obtain du where du: "sample_loads line_user = Value (JObject du)"
    "parse_line ''proj'' (JObject du) = Skip"
    using sample_parse_line(3) by blast
  obtain da where da: "sample_loads line_assistant = Value (JObject da)"
    "parse_line ''proj'' (JObject da) = Emit entry_sonnet"
    using sample_parse_line(4) by blast
  have three: "parse_lines sample_loads ''proj'' []
      [line_assistant, line_user, line_malformed] = [entry_sonnet]"
    by (simp add: du da sample_parse_line(1))
  have two: "parse_lines sample_loads ''proj'' [] [line_number, line_assistant] = []"
    by (simp add: sample_parse_line(2) parse_line_def)
  have one: "parse_lines sample_loads ''proj'' [] [line_assistant] = [entry_sonnet]"
    by (simp add: da)
  show ?thesis
    by (simp add: parse_jsonl_file_def sample_read_lines sample_parent_name three two one
        del: parse_lines.simps)
qed

section \<open>Loading\<close>

lemma load_loop:
  "foldl (\<lambda>acc file_path. acc @ parse_jsonl_file FS loads file_path) acc files =
     acc @ concat (map (parse_jsonl_file FS loads) files)"
  by (induction files arbitrary: acc) simp_all

text \<open>With a data root, a load replaces the collection by the full rescan.\<close>

lemma load_data_rescan:
  "find_claude_data_dir FS = Some claude_dir \<Longrightarrow>
   load_data FS loads usage_data =
     concat (map (parse_jsonl_file FS loads) (glob_jsonl FS claude_dir))"
  by (simp add: load_data_def load_loop)

lemma load_data_no_root:
  "find_claude_data_dir FS = None \<Longrightarrow> load_data FS loads usage_data = usage_data"
  by (simp add: load_data_def)

text \<open>
  Claim C4, on the code. With the data root in place, a load gives the concatenation of the
  records of the discovered files, whatever the collection held before. After the data root
  has been removed, a reload leaves the collection as it was, with the records of the last
  load, instead of emptying it; only the first load of a new object gives the empty
  collection then.
\<close>

theorem load_data_keeps_collection_without_root:
  "load_data sample_fs sample_loads [entry_unknown] = [entry_sonnet]
   \<and> find_claude_data_dir sample_fs_no_root = None
   \<and> load_data sample_fs_no_root sample_loads [entry_sonnet] = [entry_sonnet]
   \<and> init_token_data sample_fs_no_root sample_loads = []"
proof -
  have root: "find_claude_data_dir sample_fs = Some sample_root"
    by (simp add: find_claude_data_dir_def sample_fs_def sample_root_def)
  have files: "glob_jsonl sample_fs sample_root =
      [sample_root @ [''proj'', ''a.jsonl''], sample_root @ [''proj'', ''b.jsonl'']]"
    by (simp add: sample_fs_def sample_files_def)
  obtain du where du: "sample_loads line_user = Value (JObject du)"
    "parse_line ''proj'' (JObject du) = Skip"
    using sample_parse_line(3) by blast
  obtain da where da: "sample_loads line_assistant = Value (JObject da)"
    "parse_line ''proj'' (JObject da) = Emit entry_sonnet"
    using sample_parse_line(4) by blast
  have "parse_lines sample_loads ''proj'' []
      [line_assistant, line_user, line_malformed] = [entry_sonnet]"
    by (simp add: du da sample_parse_line(1))
  then have a: "parse_jsonl_file sample_fs sample_loads (sample_root @ [''proj'', ''a.jsonl'']) =
      [entry_sonnet]"
    by (simp add: parse_jsonl_file_def sample_read_lines sample_parent_name
        del: parse_lines.simps)
  have "parse_lines sample_loads ''proj'' [] [line_number, line_assistant] = []"
    by (simp add: sample_parse_line(2) parse_line_def)
  then have b: "parse_jsonl_file sample_fs sample_loads (sample_root @ [''proj'', ''b.jsonl'']) = []"
    by (simp add: parse_jsonl_file_def sample_read_lines sample_parent_name
        del: parse_lines.simps)
  have "load_data sample_fs sample_loads [entry_unknown] = [entry_sonnet]"
    by (simp add: load_data_rescan [OF root] files a b)
  moreover have none: "find_claude_data_dir sample_fs_no_root = None"
    by (simp add: find_claude_data_dir_def sample_fs_no_root_def)
  ultimately show ?thesis
    by (simp add: load_data_no_root init_token_data_def)
qed

end
